theory Spec2Isabelle
  imports Main
begin

section \<open>Strings, dates and the schedule record\<close>

text \<open>
  A JavaScript string is a sequence of UTF-16 code units. The day names of the program
  are Arabic, so strings are modelled as lists of code units (natural numbers);
  \<open>===\<close> on strings is equality of these lists and \<open><\<close> compares them code unit by
  code unit, a proper prefix being smaller.
\<close>

type_synonym jsstring = "nat list"

definition str :: "string \<Rightarrow> jsstring" where
  "str cs = map of_char cs"

fun js_lt :: "jsstring \<Rightarrow> jsstring \<Rightarrow> bool" where
  "js_lt [] [] = False"
| "js_lt [] (y # ys) = True"
| "js_lt (x # xs) [] = False"
| "js_lt (x # xs) (y # ys) = (x < y \<or> (x = y \<and> js_lt xs ys))"

text \<open>\<open>a >= b\<close> on strings is the negation of \<open>a < b\<close>.\<close>

definition js_ge :: "jsstring \<Rightarrow> jsstring \<Rightarrow> bool" where
  "js_ge a b = (\<not> js_lt a b)"

text \<open>A string is falsy exactly when it is empty; \<open>null\<close> is \<open>None\<close>.\<close>

definition truthy_str :: "jsstring option \<Rightarrow> bool" where
  "truthy_str v = (case v of None \<Rightarrow> False | Some s \<Rightarrow> s \<noteq> [])"

text \<open>\<open>Number.prototype.toString\<close> on a non-negative integer: its decimal digits.\<close>

fun toString :: "nat \<Rightarrow> jsstring" where
  "toString n = (if n < 10 then [48 + n] else toString (n div 10) @ [48 + n mod 10])"

declare toString.simps [simp del]

text \<open>\<open>padStart(n, f)\<close> with a filler \<open>f\<close> of one code unit.\<close>

definition padStart :: "nat \<Rightarrow> nat \<Rightarrow> jsstring \<Rightarrow> jsstring" where
  "padStart n fill s = replicate (n - length s) fill @ s"

text \<open>
  The three getters of \<open>Date\<close> that the program reads. A \<open>Date\<close> made by \<open>new Date()\<close>
  has \<open>getDay\<close> in 0..6, \<open>getHours\<close> in 0..23 and \<open>getMinutes\<close> in 0..59.
\<close>

record js_date =
  getDay :: nat
  getHours :: nat
  getMinutes :: nat

definition valid_date :: "js_date \<Rightarrow> bool" where
  "valid_date d = (getDay d < 7 \<and> getHours d < 24 \<and> getMinutes d < 60)"

definition DAYS_OF_WEEK :: "jsstring list" where
  "DAYS_OF_WEEK =
    [[1575, 1604, 1571, 1581, 1583],
     [1575, 1604, 1575, 1579, 1606, 1610, 1606],
     [1575, 1604, 1579, 1604, 1575, 1579, 1575, 1569],
     [1575, 1604, 1571, 1585, 1576, 1593, 1575, 1569],
     [1575, 1604, 1582, 1605, 1610, 1587],
     [1575, 1604, 1580, 1605, 1593, 1577],
     [1575, 1604, 1587, 1576, 1578]]"

text \<open>\<open>DAYS_OF_WEEK[now.getDay()]\<close>; an index out of range reads \<open>undefined\<close>.\<close>

definition dayName :: "js_date \<Rightarrow> jsstring option" where
  "dayName d = (if getDay d < length DAYS_OF_WEEK then Some (DAYS_OF_WEEK ! getDay d) else None)"

text \<open>\<open>c.days.includes(dayName)\<close>: no string of the array equals \<open>undefined\<close>.\<close>

definition includes_str :: "jsstring list \<Rightarrow> jsstring option \<Rightarrow> bool" where
  "includes_str xs v = (case v of None \<Rightarrow> False | Some x \<Rightarrow> x \<in> set xs)"

text \<open>
  The expression that both \<open>currentOngoingClass\<close> (as \<open>nowStr\<close>) and \<open>checkAlarms\<close>
  (as \<open>timeStr\<close>) compute: hours and minutes, each padded to two digits, around a colon.
\<close>

definition timeStr :: "js_date \<Rightarrow> jsstring" where
  "timeStr d = padStart 2 48 (toString (getHours d)) @ [58] @ padStart 2 48 (toString (getMinutes d))"

record SchoolClass =
  class_id :: jsstring
  name :: jsstring
  startTime :: jsstring
  endTime :: jsstring
  days :: "jsstring list"
  active :: bool

datatype alarm_type = Start | End

record AlarmState =
  isActive :: bool
  className :: jsstring
  type :: alarm_type

section \<open>The ongoing class\<close>

text \<open>The predicate handed to \<open>classes.find\<close> in \<open>currentOngoingClass\<close>.\<close>

definition ongoing_at :: "js_date \<Rightarrow> SchoolClass \<Rightarrow> bool" where
  "ongoing_at currentTime c =
     (if \<not> active c \<or> \<not> includes_str (days c) (dayName currentTime) then False
      else js_ge (timeStr currentTime) (startTime c) \<and> js_lt (timeStr currentTime) (endTime c))"

definition currentOngoingClass :: "SchoolClass list \<Rightarrow> js_date \<Rightarrow> SchoolClass option" where
  "currentOngoingClass classes currentTime = find (ongoing_at currentTime) classes"

text \<open>
  The window of the specification, in its own words: the instant's string lies in
  \<open>[start, end)\<close>, start inclusive, end exclusive, on a day of the class's weekday set.
  It is stated for comparison with \<open>ongoing_at\<close>.
\<close>

definition js_le :: "jsstring \<Rightarrow> jsstring \<Rightarrow> bool" where
  "js_le a b = (a = b \<or> js_lt a b)"

definition ongoing_spec :: "js_date \<Rightarrow> SchoolClass \<Rightarrow> bool" where
  "ongoing_spec t c =
     (active c \<and> DAYS_OF_WEEK ! getDay t \<in> set (days c) \<and>
      js_le (startTime c) (timeStr t) \<and> js_lt (timeStr t) (endTime c))"

section \<open>The component state\<close>

text \<open>
  One record holds what the handlers of \<open>App\<close> read and write: the React state
  variables (\<open>currentUser\<close>, \<open>classes\<close>, \<open>currentTime\<close>, \<open>isTestingSound\<close>,
  \<open>activeAlarm\<close>), the refs (\<open>firedAlarmsRef\<close>, \<open>lastMinuteRef\<close>, \<open>autoStopTimerRef\<close>)
  and the part of the browser they act on: a clock in milliseconds, the pending
  \<open>setTimeout\<close> timers as pairs of handle and deadline, the next free handle (handles
  are positive), the notification permission and the notifications shown so far.
  The handlers are functions from state to state. The audio element is left out: the
  handlers only write to it, and the failure of \<open>play()\<close> only writes
  \<open>isAudioUnlocked\<close>, which none of them reads.

  A handler reads the state variables of the render that created it. The buttons are
  bound anew at every render, so \<open>stopAlarm\<close> and \<open>toggleTestSound\<close> read the current
  values. The worker's \<open>onmessage\<close> is different: it is assigned in an effect with the
  dependency list \<open>[classes, currentUser]\<close>, and it calls the \<open>checkAlarms\<close> of the
  render in which that effect last ran. What this \<open>checkAlarms\<close> reads as
  \<open>currentUser\<close>, \<open>classes\<close> and \<open>activeAlarm\<close> are the values of that render, kept
  here as \<open>handlerUser\<close>, \<open>handlerClasses\<close> and \<open>handlerAlarm\<close>. They are captured anew
  only when \<open>classes\<close> or \<open>currentUser\<close> change; setting \<open>activeAlarm\<close> or
  \<open>currentTime\<close> renders again but does not run the effect. The refs are the same
  objects in every render, so the handler reads and writes the current fired-set,
  last-seen minute and timer handle.

  \<open>firedLog\<close> is an observation, not a variable of the program: each time the branch of
  \<open>checkAlarms\<close> that calls \<open>triggerAlarm\<close> runs, the tick and the class are appended.
  No handler reads it; the theorems count triggers with it.
\<close>

datatype notification_permission = Default | Granted | Denied

record app_state =
  currentUser :: "jsstring option"
  classes :: "SchoolClass list"
  currentTime :: js_date
  isTestingSound :: bool
  firedAlarms :: "jsstring set"
  lastMinute :: int
  activeAlarm :: "AlarmState option"
  autoStopTimer :: "nat option"
  now_ms :: nat
  timers :: "(nat \<times> nat) list"
  nextHandle :: nat
  permission :: notification_permission
  notifications :: "jsstring list"
  firedLog :: "(js_date \<times> SchoolClass) list"
  handlerUser :: "jsstring option"
  handlerClasses :: "SchoolClass list"
  handlerAlarm :: "AlarmState option"

text \<open>
  The worker effect, as far as the tick handler is concerned: it runs after a render in
  which \<open>classes\<close> or \<open>currentUser\<close> have changed and installs a handler that closes
  over the values of that render.
\<close>

definition workerEffect :: "app_state \<Rightarrow> app_state" where
  "workerEffect s =
     s\<lparr>handlerUser := currentUser s, handlerClasses := classes s, handlerAlarm := activeAlarm s\<rparr>"

text \<open>
  The state after mounting for a logged-in user with a loaded schedule: nothing fired,
  \<open>lastMinuteRef\<close> at \<open>-1\<close>, no alarm, no timer, and the worker effect run on these
  values.
\<close>

definition init_state :: "jsstring \<Rightarrow> SchoolClass list \<Rightarrow> js_date \<Rightarrow> app_state" where
  "init_state u cs t =
     \<lparr>currentUser = Some u, classes = cs, currentTime = t, isTestingSound = False,
      firedAlarms = {}, lastMinute = -1, activeAlarm = None, autoStopTimer = None,
      now_ms = 0, timers = [], nextHandle = 1, permission = Granted,
      notifications = [], firedLog = [],
      handlerUser = Some u, handlerClasses = cs, handlerAlarm = None\<rparr>"

section \<open>Timers\<close>

text \<open>
  \<open>window.setTimeout(f, delay)\<close> returns a fresh positive handle and queues the callback
  for \<open>delay\<close> milliseconds from now; \<open>clearTimeout(h)\<close> removes the timer of that handle,
  if it is still pending. The only callback the program ever queues is
  \<open>() => stopAlarm()\<close>, so a pending timer is its handle and its deadline.
\<close>

definition setTimeout :: "nat \<Rightarrow> app_state \<Rightarrow> nat \<times> app_state" where
  "setTimeout delay s =
     (nextHandle s,
      s\<lparr>timers := timers s @ [(nextHandle s, now_ms s + delay)],
        nextHandle := Suc (nextHandle s)\<rparr>)"

definition clearTimeout :: "nat \<Rightarrow> app_state \<Rightarrow> app_state" where
  "clearTimeout h s = s\<lparr>timers := filter (\<lambda>p. fst p \<noteq> h) (timers s)\<rparr>"

text \<open>\<open>if (autoStopTimerRef.current)\<close>: a handle is truthy unless it is \<open>null\<close> or \<open>0\<close>.\<close>

definition truthy_handle :: "nat option \<Rightarrow> bool" where
  "truthy_handle v = (case v of None \<Rightarrow> False | Some h \<Rightarrow> h \<noteq> 0)"

section \<open>The alarm: triggerAlarm, stopAlarm, toggleTestSound\<close>

definition triggerAlarm :: "jsstring \<Rightarrow> alarm_type \<Rightarrow> app_state \<Rightarrow> app_state" where
  "triggerAlarm cn ty s =
     (let s1 = s\<lparr>activeAlarm := Some \<lparr>isActive = True, className = cn, type = ty\<rparr>\<rparr>;
          s2 = (if truthy_handle (autoStopTimer s1) then clearTimeout (the (autoStopTimer s1)) s1
                else s1);
          r = setTimeout 20000 s2
      in (snd r)\<lparr>autoStopTimer := Some (fst r)\<rparr>)"

definition stopAlarm :: "app_state \<Rightarrow> app_state" where
  "stopAlarm s =
     (let s1 = s\<lparr>activeAlarm := None, isTestingSound := False\<rparr>
      in if truthy_handle (autoStopTimer s1)
         then (clearTimeout (the (autoStopTimer s1)) s1)\<lparr>autoStopTimer := None\<rparr>
         else s1)"

text \<open>The label of the test alarm, the string literal of \<open>toggleTestSound\<close>.\<close>

definition testLabel :: jsstring where
  "testLabel = [1578, 1580, 1585, 1576, 1577, 32, 1575, 1604, 1580, 1585, 1587]"

definition toggleTestSound :: "app_state \<Rightarrow> app_state" where
  "toggleTestSound s =
     (if isTestingSound s then stopAlarm s
      else triggerAlarm testLabel Start (s\<lparr>isTestingSound := True\<rparr>))"

text \<open>
  Time passes: the clock advances by \<open>d\<close> milliseconds and every timer whose deadline
  is reached leaves the queue and runs its callback, \<open>stopAlarm\<close>. Timers are taken as
  punctual: a callback runs as soon as the clock reaches its deadline.
\<close>

definition elapse :: "nat \<Rightarrow> app_state \<Rightarrow> app_state" where
  "elapse d s =
     (let t = now_ms s + d;
          due = filter (\<lambda>p. snd p \<le> t) (timers s);
          s1 = s\<lparr>now_ms := t, timers := filter (\<lambda>p. \<not> snd p \<le> t) (timers s)\<rparr>
      in foldl (\<lambda>s' p. stopAlarm s') s1 due)"

section \<open>The tick: checkAlarms\<close>

text \<open>The title of the notification, the template literal of \<open>checkAlarms\<close>.\<close>

definition notificationTitle :: "jsstring \<Rightarrow> jsstring" where
  "notificationTitle n = [1575, 1606, 1578, 1607, 1578, 32, 1581, 1589, 1577, 32] @ n"

text \<open>The body of \<open>classes.forEach\<close> in \<open>checkAlarms\<close>, for one class.\<close>

definition checkClass :: "js_date \<Rightarrow> app_state \<Rightarrow> SchoolClass \<Rightarrow> app_state" where
  "checkClass now s c =
     (if \<not> active c \<or> \<not> includes_str (days c) (dayName now) then s
      else if timeStr now = endTime c \<and> class_id c \<notin> firedAlarms s then
        (let s1 = s\<lparr>firedAlarms := insert (class_id c) (firedAlarms s),
                     firedLog := firedLog s @ [(now, c)]\<rparr>;
             s2 = triggerAlarm (name c) End s1
         in if permission s2 = Granted
            then s2\<lparr>notifications := notifications s2 @ [notificationTitle (name c)]\<rparr>
            else s2)
      else s)"

text \<open>
  The tests of that body that do not look at the fired-set: the class is enabled and
  active on the tick's weekday, and the tick's time string equals its end time. This is
  the boundary hit; the body calls \<open>triggerAlarm\<close> for class \<open>c\<close> in state \<open>s\<close> when
  there is a hit and the id is not yet in the fired-set.
\<close>

definition boundary_hit :: "js_date \<Rightarrow> SchoolClass \<Rightarrow> bool" where
  "boundary_hit now c =
     (\<not> (\<not> active c \<or> \<not> includes_str (days c) (dayName now)) \<and> timeStr now = endTime c)"

definition triggers :: "js_date \<Rightarrow> app_state \<Rightarrow> SchoolClass \<Rightarrow> bool" where
  "triggers now s c = (boundary_hit now c \<and> class_id c \<notin> firedAlarms s)"

text \<open>The reset of the fired-set when the minute has changed.\<close>

definition rollover :: "js_date \<Rightarrow> app_state \<Rightarrow> app_state" where
  "rollover now s =
     (if int (getMinutes now) \<noteq> lastMinute s
      then s\<lparr>firedAlarms := {}, lastMinute := int (getMinutes now)\<rparr>
      else s)"

text \<open>
  \<open>checkAlarms\<close> closes over the component variables \<open>currentUser\<close>, \<open>activeAlarm\<close> and
  \<open>classes\<close>; they are its first three arguments here, in this order. The refs it reads
  and writes are in the state.
\<close>

definition checkAlarms ::
  "jsstring option \<Rightarrow> AlarmState option \<Rightarrow> SchoolClass list \<Rightarrow> js_date \<Rightarrow> app_state \<Rightarrow> app_state" where
  "checkAlarms user alarm cls now s =
     (if \<not> truthy_str user \<or> alarm \<noteq> None then s
      else foldl (checkClass now) (rollover now s) cls)"

text \<open>
  The worker's \<open>onmessage\<close> handler: \<open>setCurrentTime(now); checkAlarms(now)\<close>, with the
  \<open>checkAlarms\<close> of the render in which the worker effect last ran.
\<close>

definition onmessage :: "js_date \<Rightarrow> app_state \<Rightarrow> app_state" where
  "onmessage now s =
     checkAlarms (handlerUser s) (handlerAlarm s) (handlerClasses s) now (s\<lparr>currentTime := now\<rparr>)"

section \<open>Runs\<close>

text \<open>
  What can happen to the engine, one event at a time: a tick of the worker with the
  \<open>Date\<close> it reads, a press on the stop button, a press on the test button, and the
  passing of time (which runs the auto-stop timer when it is due).
\<close>

datatype event = Tick js_date | Stop | TestButton | Elapse nat

fun step :: "app_state \<Rightarrow> event \<Rightarrow> app_state" where
  "step s (Tick now) = onmessage now s"
| "step s Stop = stopAlarm s"
| "step s TestButton = toggleTestSound s"
| "step s (Elapse d) = elapse d s"

definition run :: "event list \<Rightarrow> app_state \<Rightarrow> app_state" where
  "run es s = foldl step s es"

fun ticks :: "event list \<Rightarrow> js_date list" where
  "ticks [] = []"
| "ticks (Tick t # es) = t # ticks es"
| "ticks (e # es) = ticks es"

definition minuteOfDay :: "js_date \<Rightarrow> nat" where
  "minuteOfDay t = getHours t * 60 + getMinutes t"

text \<open>How often the alarm of class \<open>c\<close> has been triggered by ticks so far.\<close>

definition fired_count :: "SchoolClass \<Rightarrow> app_state \<Rightarrow> nat" where
  "fired_count c s = length (filter (\<lambda>p. snd p = c) (firedLog s))"

text \<open>How often a tick has triggered an alarm for a class with id \<open>i\<close> so far.\<close>

definition fired_count_id :: "jsstring \<Rightarrow> app_state \<Rightarrow> nat" where
  "fired_count_id i s = length (filter (\<lambda>p. class_id (snd p) = i) (firedLog s))"

text \<open>
  Every id of the fired-set belongs to a class triggered by a tick whose minute is the
  last-seen minute.
\<close>

definition fired_in_last_minute :: "app_state \<Rightarrow> bool" where
  "fired_in_last_minute s =
     (\<forall>i\<in>firedAlarms s. \<exists>p\<in>set (firedLog s).
        class_id (snd p) = i \<and> int (getMinutes (fst p)) = lastMinute s)"

text \<open>
  The timer queue as the handlers keep it: handles are positive, and a pending timer, if
  there is one, is the only one and is the one \<open>autoStopTimerRef\<close> holds.
\<close>

definition timer_inv :: "app_state \<Rightarrow> bool" where
  "timer_inv s =
     (0 < nextHandle s \<and>
      (case timers s of
         [] \<Rightarrow> True
       | [p] \<Rightarrow> autoStopTimer s = Some (fst p) \<and> 0 < fst p
       | _ \<Rightarrow> False))"

text \<open>Events without a press on a button, and the time that passes in them.\<close>

fun no_press :: "event list \<Rightarrow> bool" where
  "no_press [] = True"
| "no_press (Stop # es) = False"
| "no_press (TestButton # es) = False"
| "no_press (e # es) = no_press es"

fun elapsed :: "event list \<Rightarrow> nat" where
  "elapsed [] = 0"
| "elapsed (Elapse d # es) = d + elapsed es"
| "elapsed (e # es) = elapsed es"

section \<open>Loading the saved schedule\<close>

text \<open>
  The part of the effect on \<open>currentUser\<close> that loads the classes. \<open>localStorage.getItem\<close>
  and \<open>JSON.parse\<close> belong to the browser and are parameters: \<open>getItem\<close> yields \<open>None\<close>
  for \<open>null\<close>, and \<open>JSON_parse\<close> yields \<open>None\<close> where \<open>JSON.parse\<close> throws. The parsed
  value is stored as it is, under the type the program declares for it.
\<close>

definition userKey :: "jsstring \<Rightarrow> jsstring" where
  "userKey u = str ''user_'' @ u @ str ''_''"

definition loadClasses ::
  "(jsstring \<Rightarrow> SchoolClass list option) \<Rightarrow> (jsstring \<Rightarrow> jsstring option) \<Rightarrow> app_state \<Rightarrow> app_state" where
  "loadClasses JSON_parse getItem s =
     (if \<not> truthy_str (currentUser s) then s\<lparr>classes := []\<rparr>
      else
        (let savedClasses = getItem (userKey (the (currentUser s)) @ str ''classes'')
         in if truthy_str savedClasses then
              (case JSON_parse (the savedClasses) of
                 Some cs \<Rightarrow> s\<lparr>classes := cs\<rparr>
               | None \<Rightarrow> s)
            else s\<lparr>classes := []\<rparr>))"

text \<open>
  Modelled from the spec: the validation of a persisted record, which the source does
  not have. The data model asks for a non-empty display name, start and end as
  wall-clock minutes (\<open>HH:mm\<close>) and the end strictly after the start.
\<close>

definition is_hhmm :: "jsstring \<Rightarrow> bool" where
  "is_hhmm s =
     (case s of
        [a, b, c, d, e] \<Rightarrow>
          c = 58 \<and> 48 \<le> a \<and> a \<le> 57 \<and> 48 \<le> b \<and> b \<le> 57 \<and> 48 \<le> d \<and> d \<le> 57 \<and> 48 \<le> e \<and> e \<le> 57 \<and>
          (a - 48) * 10 + (b - 48) < 24 \<and> (d - 48) * 10 + (e - 48) < 60
      | _ \<Rightarrow> False)"

definition well_formed_record :: "SchoolClass \<Rightarrow> bool" where
  "well_formed_record c =
     (name c \<noteq> [] \<and> is_hhmm (startTime c) \<and> is_hhmm (endTime c) \<and> js_lt (startTime c) (endTime c))"

section \<open>Example data\<close>

text \<open>
  An instant given by weekday index, hour and minute, and an enabled Sunday class with
  the given id, start and end, used where a theorem is applied to concrete input.
\<close>

definition at_time :: "nat \<Rightarrow> nat \<Rightarrow> nat \<Rightarrow> js_date" where
  "at_time d h m = \<lparr>getDay = d, getHours = h, getMinutes = m\<rparr>"

definition lesson :: "string \<Rightarrow> string \<Rightarrow> string \<Rightarrow> SchoolClass" where
  "lesson i st en =
     \<lparr>class_id = str i, name = str ''Maths'', startTime = str st, endTime = str en,
      days = [DAYS_OF_WEEK ! 0], active = True\<rparr>"

text \<open>Two Sunday classes, one ending at 08:29 and one at 08:30.\<close>

definition two_lessons :: "SchoolClass list" where
  "two_lessons = [lesson ''2'' ''08:00'' ''08:29'', lesson ''1'' ''08:00'' ''08:30'']"

text \<open>
  A class held every day from 08:00 to 08:30. On Sunday a tick at 08:30 rings its alarm,
  which stops after twenty seconds; then no tick arrives for the rest of twenty-four
  hours (the device sleeps). On Monday the ticks resume in minute 08:30.
\<close>

definition daily_lesson :: SchoolClass where
  "daily_lesson = (lesson ''1'' ''08:00'' ''08:30'')\<lparr>days := DAYS_OF_WEEK\<rparr>"

definition sunday_then_sleep :: "event list" where
  "sunday_then_sleep = [Tick (at_time 0 8 30), Elapse 20000, Elapse 86380000]"

definition monday_ticks :: "event list" where
  "monday_ticks = [Tick (at_time 1 8 30), Tick (at_time 1 8 30), Tick (at_time 1 8 31)]"

text \<open>A Sunday morning with one class and several ticks in its end minute.\<close>

definition repeated_ticks :: "event list" where
  "repeated_ticks =
     [Tick (at_time 0 8 29), Tick (at_time 0 8 30), Tick (at_time 0 8 30), Elapse 20000,
      Tick (at_time 0 8 30), Tick (at_time 0 8 31)]"

text \<open>
  A store that holds one saved text for user \<open>u\<close>, a \<open>JSON.parse\<close> that reads it as two
  records, the second with its end before its start, and a \<open>JSON.parse\<close> that throws.
\<close>

definition stored_text :: jsstring where
  "stored_text = str ''[saved classes]''"

definition demo_getItem :: "jsstring \<Rightarrow> jsstring option" where
  "demo_getItem k = (if k = str ''user_u_classes'' then Some stored_text else None)"

definition demo_parse :: "jsstring \<Rightarrow> SchoolClass list option" where
  "demo_parse txt =
     (if txt = stored_text
      then Some [lesson ''1'' ''08:00'' ''08:30'', lesson ''2'' ''09:00'' ''08:00'']
      else None)"

definition failing_parse :: "jsstring \<Rightarrow> SchoolClass list option" where
  "failing_parse txt = None"

section \<open>Time strings\<close>

lemma toString_small: "n < 10 \<Longrightarrow> toString n = [48 + n]"
  by (simp add: toString.simps)

lemma pad2: "n < 100 \<Longrightarrow> padStart 2 48 (toString n) = [48 + n div 10, 48 + n mod 10]"
proof (cases "n < 10")
  case True
  then show ?thesis by (simp add: toString_small padStart_def)
next
  case False
  assume "n < 100"
  with False have "n div 10 < 10" by simp
  then have "toString (n div 10) = [48 + n div 10]" by (rule toString_small)
  with False show ?thesis
    by (simp add: toString.simps [of n] padStart_def)
qed

lemma timeStr_digits:
  "getHours d < 100 \<Longrightarrow> getMinutes d < 100 \<Longrightarrow>
   timeStr d = [48 + getHours d div 10, 48 + getHours d mod 10, 58,
                48 + getMinutes d div 10, 48 + getMinutes d mod 10]"
  by (simp add: timeStr_def pad2)

lemma js_lt_irrefl: "\<not> js_lt a a"
  by (induction a) auto

lemma js_lt_total: "js_lt a b \<or> a = b \<or> js_lt b a"
  by (induction a b rule: js_lt.induct) auto

lemma js_lt_asym: "js_lt a b \<Longrightarrow> \<not> js_lt b a"
  by (induction a b rule: js_lt.induct) auto

lemma js_ge_iff_le: "js_ge a b \<longleftrightarrow> js_le b a"
  unfolding js_ge_def js_le_def
  using js_lt_total [of a b] js_lt_asym [of a b] js_lt_irrefl [of a] by auto

section \<open>Properties of the ongoing class\<close>

lemma ongoing_at_spec: "getDay t < 7 \<Longrightarrow> ongoing_at t c = ongoing_spec t c"
  by (auto simp: ongoing_at_def ongoing_spec_def js_ge_iff_le dayName_def includes_str_def DAYS_OF_WEEK_def)

lemma find_first:
  "find P xs = Some x \<longleftrightarrow> (\<exists>pre post. xs = pre @ x # post \<and> P x \<and> (\<forall>y\<in>set pre. \<not> P y))"
proof (induction xs)
  case Nil
  show ?case by simp
next
  case (Cons a xs)
  show ?case
  proof (cases "P a")
    case True
    then show ?thesis
      by (auto simp: Cons_eq_append_conv)
  next
    case False
    have "(\<exists>pre post. a # xs = pre @ x # post \<and> P x \<and> (\<forall>y\<in>set pre. \<not> P y)) \<longleftrightarrow>
          (\<exists>pre post. xs = pre @ x # post \<and> P x \<and> (\<forall>y\<in>set pre. \<not> P y))" (is "?L \<longleftrightarrow> ?R")
    proof
      assume ?L
      then obtain pre post where h: "a # xs = pre @ x # post" "P x" "\<forall>y\<in>set pre. \<not> P y"
        by blast
      with False obtain pre' where "pre = a # pre'"
        by (cases pre) auto
      with h show ?R by auto
    next
      assume ?R
      then obtain pre post where h: "xs = pre @ x # post" "P x" "\<forall>y\<in>set pre. \<not> P y"
        by blast
      then have "a # xs = (a # pre) @ x # post \<and> P x \<and> (\<forall>y\<in>set (a # pre). \<not> P y)"
        using False by simp
      then show ?L by blast
    qed
    with False Cons.IH show ?thesis by simp
  qed
qed

lemma window_0800_0830:
  assumes "getHours t = 8" "getMinutes t < 60"
  shows "js_le (str ''08:00'') (timeStr t) \<and> (js_lt (timeStr t) (str ''08:30'') \<longleftrightarrow> getMinutes t < 30)"
proof -
  have ts: "timeStr t = [48, 56, 58, 48 + getMinutes t div 10, 48 + getMinutes t mod 10]"
    using assms by (simp add: timeStr_digits)
  have "getMinutes t div 10 < 3 \<longleftrightarrow> getMinutes t < 30" by presburger
  moreover have "getMinutes t div 10 = 3 \<and> getMinutes t mod 10 < 0 \<longleftrightarrow> False" by simp
  ultimately show ?thesis
    unfolding ts by (auto simp: str_def js_le_def)
qed

text \<open>
  C5. For every schedule list and every instant of a real weekday, the class reported by
  \<open>currentOngoingClass\<close> is the first class of the list, in list order, that is enabled,
  has the instant's weekday in its weekday set and has the instant's zero-padded
  \<open>HH:mm\<close> string in \<open>[startTime, endTime)\<close>; none is reported exactly when no class
  of the list is so. A class from 08:00 to 08:30 is ongoing at every minute from 08:00
  to 08:29 and not at 08:30 or later in that hour.
\<close>

theorem ongoing_class_semantics:
  assumes "getDay t < 7"
  shows "(currentOngoingClass cs t = None \<longleftrightarrow> (\<forall>c\<in>set cs. \<not> ongoing_spec t c)) \<and>
         (currentOngoingClass cs t = Some c \<longleftrightarrow>
            (\<exists>pre post. cs = pre @ c # post \<and> ongoing_spec t c \<and> (\<forall>x\<in>set pre. \<not> ongoing_spec t x))) \<and>
         (active c \<and> DAYS_OF_WEEK ! getDay t \<in> set (days c) \<and>
          startTime c = str ''08:00'' \<and> endTime c = str ''08:30'' \<and>
          getHours t = 8 \<and> getMinutes t < 60 \<longrightarrow>
            (currentOngoingClass [c] t = Some c \<longleftrightarrow> getMinutes t < 30))"
proof -
  have eq: "ongoing_at t = ongoing_spec t"
    using assms by (auto simp: ongoing_at_spec)
  have a: "currentOngoingClass cs t = None \<longleftrightarrow> (\<forall>c\<in>set cs. \<not> ongoing_spec t c)"
    by (auto simp: currentOngoingClass_def eq find_None_iff)
  have b: "currentOngoingClass cs t = Some c \<longleftrightarrow>
            (\<exists>pre post. cs = pre @ c # post \<and> ongoing_spec t c \<and> (\<forall>x\<in>set pre. \<not> ongoing_spec t x))"
    unfolding currentOngoingClass_def eq by (rule find_first)
  have c: "currentOngoingClass [c] t = Some c \<longleftrightarrow> getMinutes t < 30"
    if "active c" "DAYS_OF_WEEK ! getDay t \<in> set (days c)" "startTime c = str ''08:00''"
       "endTime c = str ''08:30''" "getHours t = 8" "getMinutes t < 60"
  proof -
    have "ongoing_spec t c \<longleftrightarrow> getMinutes t < 30"
      using that window_0800_0830 [of t] by (simp add: ongoing_spec_def)
    then show ?thesis
      by (simp add: currentOngoingClass_def eq)
  qed
  from a b c show ?thesis by blast
qed

theorem ongoing_class_semantics_witness:
  "currentOngoingClass [lesson ''1'' ''08:00'' ''08:30''] (at_time 0 8 0) = Some (lesson ''1'' ''08:00'' ''08:30'') \<and>
   currentOngoingClass [lesson ''1'' ''08:00'' ''08:30''] (at_time 0 8 29) = Some (lesson ''1'' ''08:00'' ''08:30'') \<and>
   currentOngoingClass [lesson ''1'' ''08:00'' ''08:30''] (at_time 0 8 30) \<noteq> Some (lesson ''1'' ''08:00'' ''08:30'')"
proof -
  let ?c = "lesson ''1'' ''08:00'' ''08:30''"
  have d: "getDay (at_time 0 8 m) < 7" for m
    by (simp add: at_time_def)
  have pre: "active ?c \<and> DAYS_OF_WEEK ! getDay (at_time 0 8 m) \<in> set (days ?c) \<and>
             startTime ?c = str ''08:00'' \<and> endTime ?c = str ''08:30'' \<and> getHours (at_time 0 8 m) = 8" for m
    by (simp add: at_time_def lesson_def)
  have "currentOngoingClass [?c] (at_time 0 8 m) = Some ?c \<longleftrightarrow> m < 30" if "m < 60" for m
    using ongoing_class_semantics [where t = "at_time 0 8 m" and cs = "[?c]" and c = ?c,
            OF d, THEN conjunct2, THEN conjunct2] pre [of m] that
    by (simp add: at_time_def)
  from this [of 0] this [of 29] this [of 30] show ?thesis by simp
qed

lemma timeStr_not_before_midnight:
  assumes "getHours t < 100" "getMinutes t < 100"
  shows "\<not> js_lt (timeStr t) (str ''00:00'')"
  using assms by (simp add: timeStr_digits str_def)

text \<open>
  C7, as the code has it. A class whose end time is 00:00 is not treated as ending at
  the end of the day: no \<open>HH:mm\<close> string is below 00:00, so at no instant is such a
  class ongoing, whatever its start time.
\<close>

theorem midnight_end_never_ongoing:
  assumes "getHours t < 24" "getMinutes t < 60" "endTime c = str ''00:00''"
  shows "\<not> ongoing_at t c \<and> currentOngoingClass cs t \<noteq> Some c"
proof -
  have n: "\<not> ongoing_at t c"
    using assms timeStr_not_before_midnight [of t] by (simp add: ongoing_at_def)
  then have "currentOngoingClass cs t \<noteq> Some c"
    by (auto simp: currentOngoingClass_def find_first)
  with n show ?thesis by simp
qed

theorem midnight_end_never_ongoing_witness:
  "endTime (lesson ''1'' ''23:00'' ''00:00'') = str ''00:00'' \<and>
   currentOngoingClass [lesson ''1'' ''23:00'' ''00:00''] (at_time 0 23 30) \<noteq> Some (lesson ''1'' ''23:00'' ''00:00'')"
  using midnight_end_never_ongoing [of "at_time 0 23 30" "lesson ''1'' ''23:00'' ''00:00''" "[lesson ''1'' ''23:00'' ''00:00'']"]
  by (simp add: at_time_def lesson_def)

text \<open>
  C7 as stated fails: an enabled Sunday class from 23:00 to 00:00 is not ongoing on
  Sunday at 23:30, although 23:30 is at or after its start.
\<close>

theorem midnight_end_counterexample:
  "endTime (lesson ''1'' ''23:00'' ''00:00'') = str ''00:00'' \<and>
   active (lesson ''1'' ''23:00'' ''00:00'') \<and>
   includes_str (days (lesson ''1'' ''23:00'' ''00:00'')) (dayName (at_time 0 23 30)) \<and>
   js_ge (timeStr (at_time 0 23 30)) (startTime (lesson ''1'' ''23:00'' ''00:00'')) \<and>
   currentOngoingClass [lesson ''1'' ''23:00'' ''00:00''] (at_time 0 23 30) = None"
  by (simp add: lesson_def at_time_def includes_str_def dayName_def DAYS_OF_WEEK_def
        timeStr_digits str_def js_ge_def currentOngoingClass_def ongoing_at_def)

section \<open>Properties of the alarm engine\<close>

lemma init_state_installed: "workerEffect (init_state u cs t) = init_state u cs t"
  by (simp add: workerEffect_def init_state_def)

subsection \<open>What the alarm handlers leave alone\<close>

lemma triggerAlarm_frame [simp]:
  "firedAlarms (triggerAlarm cn ty s) = firedAlarms s"
  "lastMinute (triggerAlarm cn ty s) = lastMinute s"
  "firedLog (triggerAlarm cn ty s) = firedLog s"
  "classes (triggerAlarm cn ty s) = classes s"
  "handlerUser (triggerAlarm cn ty s) = handlerUser s"
  "handlerClasses (triggerAlarm cn ty s) = handlerClasses s"
  "handlerAlarm (triggerAlarm cn ty s) = handlerAlarm s"
  "currentUser (triggerAlarm cn ty s) = currentUser s"
  "permission (triggerAlarm cn ty s) = permission s"
  "notifications (triggerAlarm cn ty s) = notifications s"
  "now_ms (triggerAlarm cn ty s) = now_ms s"
  "activeAlarm (triggerAlarm cn ty s) = Some \<lparr>isActive = True, className = cn, type = ty\<rparr>"
  by (simp_all add: triggerAlarm_def Let_def setTimeout_def clearTimeout_def)

lemma stopAlarm_frame [simp]:
  "firedAlarms (stopAlarm s) = firedAlarms s"
  "lastMinute (stopAlarm s) = lastMinute s"
  "firedLog (stopAlarm s) = firedLog s"
  "classes (stopAlarm s) = classes s"
  "handlerUser (stopAlarm s) = handlerUser s"
  "handlerClasses (stopAlarm s) = handlerClasses s"
  "handlerAlarm (stopAlarm s) = handlerAlarm s"
  "currentUser (stopAlarm s) = currentUser s"
  "permission (stopAlarm s) = permission s"
  "notifications (stopAlarm s) = notifications s"
  "now_ms (stopAlarm s) = now_ms s"
  "activeAlarm (stopAlarm s) = None"
  by (simp_all add: stopAlarm_def Let_def clearTimeout_def)

lemma toggleTestSound_frame [simp]:
  "firedAlarms (toggleTestSound s) = firedAlarms s"
  "lastMinute (toggleTestSound s) = lastMinute s"
  "firedLog (toggleTestSound s) = firedLog s"
  "classes (toggleTestSound s) = classes s"
  "handlerUser (toggleTestSound s) = handlerUser s"
  "handlerClasses (toggleTestSound s) = handlerClasses s"
  "handlerAlarm (toggleTestSound s) = handlerAlarm s"
  "currentUser (toggleTestSound s) = currentUser s"
  "permission (toggleTestSound s) = permission s"
  "notifications (toggleTestSound s) = notifications s"
  by (simp_all add: toggleTestSound_def)

lemma stopAlarm_fold_frame:
  "firedAlarms (foldl (\<lambda>s' p. stopAlarm s') s ps) = firedAlarms s \<and>
   lastMinute (foldl (\<lambda>s' p. stopAlarm s') s ps) = lastMinute s \<and>
   firedLog (foldl (\<lambda>s' p. stopAlarm s') s ps) = firedLog s \<and>
   classes (foldl (\<lambda>s' p. stopAlarm s') s ps) = classes s \<and>
   handlerUser (foldl (\<lambda>s' p. stopAlarm s') s ps) = handlerUser s \<and>
   handlerClasses (foldl (\<lambda>s' p. stopAlarm s') s ps) = handlerClasses s \<and>
   handlerAlarm (foldl (\<lambda>s' p. stopAlarm s') s ps) = handlerAlarm s \<and>
   currentUser (foldl (\<lambda>s' p. stopAlarm s') s ps) = currentUser s \<and>
   permission (foldl (\<lambda>s' p. stopAlarm s') s ps) = permission s \<and>
   notifications (foldl (\<lambda>s' p. stopAlarm s') s ps) = notifications s"
  by (induction ps arbitrary: s) simp_all

lemma elapse_frame [simp]:
  "firedAlarms (elapse d s) = firedAlarms s"
  "lastMinute (elapse d s) = lastMinute s"
  "firedLog (elapse d s) = firedLog s"
  "classes (elapse d s) = classes s"
  "handlerUser (elapse d s) = handlerUser s"
  "handlerClasses (elapse d s) = handlerClasses s"
  "handlerAlarm (elapse d s) = handlerAlarm s"
  "currentUser (elapse d s) = currentUser s"
  "permission (elapse d s) = permission s"
  "notifications (elapse d s) = notifications s"
  by (simp_all add: elapse_def Let_def stopAlarm_fold_frame)

subsection \<open>One class, one pass over the list\<close>

lemma checkClass_frame [simp]:
  "lastMinute (checkClass now s c) = lastMinute s"
  "classes (checkClass now s c) = classes s"
  "handlerUser (checkClass now s c) = handlerUser s"
  "handlerClasses (checkClass now s c) = handlerClasses s"
  "handlerAlarm (checkClass now s c) = handlerAlarm s"
  "currentUser (checkClass now s c) = currentUser s"
  "permission (checkClass now s c) = permission s"
  by (simp_all add: checkClass_def Let_def)

lemma checkClass_fired:
  "firedAlarms (checkClass now s c) =
     (if triggers now s c then insert (class_id c) (firedAlarms s) else firedAlarms s)"
  by (simp add: checkClass_def triggers_def boundary_hit_def Let_def)

lemma checkClass_log:
  "firedLog (checkClass now s c) =
     (if triggers now s c then firedLog s @ [(now, c)] else firedLog s)"
  by (simp add: checkClass_def triggers_def boundary_hit_def Let_def)

lemma forEach_frame [simp]:
  "lastMinute (foldl (checkClass now) s cs) = lastMinute s"
  "classes (foldl (checkClass now) s cs) = classes s"
  "handlerUser (foldl (checkClass now) s cs) = handlerUser s"
  "handlerClasses (foldl (checkClass now) s cs) = handlerClasses s"
  "handlerAlarm (foldl (checkClass now) s cs) = handlerAlarm s"
  "currentUser (foldl (checkClass now) s cs) = currentUser s"
  "permission (foldl (checkClass now) s cs) = permission s"
  by (induction cs arbitrary: s) simp_all

lemma forEach_fired_mono: "firedAlarms s \<subseteq> firedAlarms (foldl (checkClass now) s cs)"
proof (induction cs arbitrary: s)
  case Nil
  show ?case by simp
next
  case (Cons c cs)
  have "firedAlarms s \<subseteq> firedAlarms (checkClass now s c)"
    by (auto simp: checkClass_fired)
  also have "\<dots> \<subseteq> firedAlarms (foldl (checkClass now) (checkClass now s c) cs)"
    by (rule Cons.IH)
  finally show ?case by simp
qed

text \<open>
  The count of log entries selected by \<open>P\<close>, all of them of id \<open>i\<close>, plus one while \<open>i\<close>
  is not in the fired-set, never grows in a pass.
\<close>

lemma checkClass_budget:
  assumes "\<And>p. P p \<Longrightarrow> class_id (snd p) = i"
  shows "length (filter P (firedLog (checkClass now s c))) +
           (if i \<in> firedAlarms (checkClass now s c) then 0 else 1)
         \<le> length (filter P (firedLog s)) + (if i \<in> firedAlarms s then 0 else 1)"
  using assms [of "(now, c)"] by (auto simp: checkClass_fired checkClass_log triggers_def)

lemma forEach_budget:
  assumes "\<And>p. P p \<Longrightarrow> class_id (snd p) = i"
  shows "length (filter P (firedLog (foldl (checkClass now) s cs))) +
           (if i \<in> firedAlarms (foldl (checkClass now) s cs) then 0 else 1)
         \<le> length (filter P (firedLog s)) + (if i \<in> firedAlarms s then 0 else (1::nat))"
proof (induction cs arbitrary: s)
  case Nil
  show ?case by simp
next
  case (Cons c cs)
  have "length (filter P (firedLog (foldl (checkClass now) (checkClass now s c) cs))) +
           (if i \<in> firedAlarms (foldl (checkClass now) (checkClass now s c) cs) then 0 else 1)
        \<le> length (filter P (firedLog (checkClass now s c))) +
           (if i \<in> firedAlarms (checkClass now s c) then 0 else (1::nat))"
    by (rule Cons.IH)
  also have "\<dots> \<le> length (filter P (firedLog s)) + (if i \<in> firedAlarms s then 0 else 1)"
    using assms by (rule checkClass_budget)
  finally show ?case by simp
qed

subsection \<open>One tick\<close>

lemma rollover_fields [simp]:
  "lastMinute (rollover now s) = int (getMinutes now)"
  "firedAlarms (rollover now s) = (if int (getMinutes now) \<noteq> lastMinute s then {} else firedAlarms s)"
  "firedLog (rollover now s) = firedLog s"
  "classes (rollover now s) = classes s"
  "handlerUser (rollover now s) = handlerUser s"
  "handlerClasses (rollover now s) = handlerClasses s"
  "handlerAlarm (rollover now s) = handlerAlarm s"
  "currentUser (rollover now s) = currentUser s"
  "activeAlarm (rollover now s) = activeAlarm s"
  "permission (rollover now s) = permission s"
  by (simp_all add: rollover_def)

lemma onmessage_skipped:
  "\<not> truthy_str (handlerUser s) \<or> handlerAlarm s \<noteq> None \<Longrightarrow>
   onmessage now s = s\<lparr>currentTime := now\<rparr>"
  by (auto simp: onmessage_def checkAlarms_def)

lemma onmessage_processed:
  "truthy_str (handlerUser s) \<Longrightarrow> handlerAlarm s = None \<Longrightarrow>
   onmessage now s = foldl (checkClass now) (rollover now (s\<lparr>currentTime := now\<rparr>)) (handlerClasses s)"
  by (simp add: onmessage_def checkAlarms_def)

lemma onmessage_frame [simp]:
  "classes (onmessage now s) = classes s"
  "handlerUser (onmessage now s) = handlerUser s"
  "handlerClasses (onmessage now s) = handlerClasses s"
  "handlerAlarm (onmessage now s) = handlerAlarm s"
  "currentUser (onmessage now s) = currentUser s"
  "permission (onmessage now s) = permission s"
  by (simp_all add: onmessage_def checkAlarms_def)

lemma tick_budget:
  assumes P: "\<And>p. P p \<Longrightarrow> class_id (snd p) = i" and m: "getMinutes now = m"
  shows "length (filter P (firedLog (onmessage now s))) +
           (if lastMinute (onmessage now s) = int m \<and> i \<in> firedAlarms (onmessage now s) then 0 else 1)
         \<le> length (filter P (firedLog s)) +
           (if lastMinute s = int m \<and> i \<in> firedAlarms s then 0 else (1::nat))"
proof (cases "truthy_str (handlerUser s) \<and> handlerAlarm s = None")
  case False
  then show ?thesis by (auto simp: onmessage_skipped)
next
  case True
  let ?r = "rollover now (s\<lparr>currentTime := now\<rparr>)"
  let ?s' = "foldl (checkClass now) ?r (handlerClasses s)"
  have eq: "onmessage now s = ?s'"
    using True by (simp add: onmessage_processed)
  have lm: "lastMinute ?s' = int m"
    using m by simp
  have "length (filter P (firedLog ?s')) + (if i \<in> firedAlarms ?s' then 0 else 1)
        \<le> length (filter P (firedLog ?r)) + (if i \<in> firedAlarms ?r then 0 else (1::nat))"
    using P by (rule forEach_budget)
  also have "\<dots> \<le> length (filter P (firedLog s)) +
           (if lastMinute s = int m \<and> i \<in> firedAlarms s then 0 else (1::nat))"
    using m by auto
  finally show ?thesis
    unfolding eq using lm by simp
qed

lemma step_budget:
  assumes P: "\<And>p. P p \<Longrightarrow> class_id (snd p) = i" and m: "\<forall>t\<in>set (ticks [e]). getMinutes t = m"
  shows "length (filter P (firedLog (step s e))) +
           (if lastMinute (step s e) = int m \<and> i \<in> firedAlarms (step s e) then 0 else 1)
         \<le> length (filter P (firedLog s)) +
           (if lastMinute s = int m \<and> i \<in> firedAlarms s then 0 else (1::nat))"
proof (cases e)
  case (Tick now)
  with m have "getMinutes now = m" by simp
  with P show ?thesis
    unfolding Tick step.simps by (rule tick_budget)
qed simp_all

lemma ticks_append [simp]: "ticks (es @ fs) = ticks es @ ticks fs"
  by (induction es rule: ticks.induct) simp_all

lemma run_Nil [simp]: "run [] s = s"
  by (simp add: run_def)

lemma run_Cons [simp]: "run (e # es) s = run es (step s e)"
  by (simp add: run_def)

lemma run_append [simp]: "run (es @ fs) s = run fs (run es s)"
  by (simp add: run_def)

lemma run_budget:
  assumes P: "\<And>p. P p \<Longrightarrow> class_id (snd p) = i" and m: "\<forall>t\<in>set (ticks es). getMinutes t = m"
  shows "length (filter P (firedLog (run es s))) +
           (if lastMinute (run es s) = int m \<and> i \<in> firedAlarms (run es s) then 0 else 1)
         \<le> length (filter P (firedLog s)) +
           (if lastMinute s = int m \<and> i \<in> firedAlarms s then 0 else (1::nat))"
  using m
proof (induction es arbitrary: s)
  case Nil
  show ?case by simp
next
  case (Cons e es)
  have e: "\<forall>t\<in>set (ticks [e]). getMinutes t = m" and es: "\<forall>t\<in>set (ticks es). getMinutes t = m"
    using Cons.prems by (cases e; simp)+
  have "length (filter P (firedLog (run es (step s e)))) +
           (if lastMinute (run es (step s e)) = int m \<and> i \<in> firedAlarms (run es (step s e)) then 0 else 1)
        \<le> length (filter P (firedLog (step s e))) +
           (if lastMinute (step s e) = int m \<and> i \<in> firedAlarms (step s e) then 0 else (1::nat))"
    using es by (rule Cons.IH)
  also have "\<dots> \<le> length (filter P (firedLog s)) +
           (if lastMinute s = int m \<and> i \<in> firedAlarms s then 0 else (1::nat))"
    using P e by (rule step_budget)
  finally show ?case by simp
qed

text \<open>
  C2. Over any sequence of events whose ticks all carry the same minute value, started
  in any state, the membership test on the fired-set followed by the insertion lets
  the alarm of a given class id through at most once, however often the tick is
  evaluated again in that minute and whatever stop, test-button or timer events come
  in between.
\<close>

theorem dedup_at_most_once_per_minute:
  assumes "\<forall>t\<in>set (ticks es). getMinutes t = m"
  shows "fired_count_id i (run es s) \<le> fired_count_id i s + 1"
proof -
  have "length (filter (\<lambda>p. class_id (snd p) = i) (firedLog (run es s))) +
           (if lastMinute (run es s) = int m \<and> i \<in> firedAlarms (run es s) then 0 else 1)
         \<le> length (filter (\<lambda>p. class_id (snd p) = i) (firedLog s)) +
           (if lastMinute s = int m \<and> i \<in> firedAlarms s then 0 else (1::nat))"
    using assms by (intro run_budget) simp_all
  then show ?thesis
    by (simp add: fired_count_id_def split: if_splits)
qed

subsection \<open>What a pass adds\<close>

lemma forEach_fired:
  "firedAlarms (foldl (checkClass now) s cs) =
     firedAlarms s \<union> class_id ` {c \<in> set cs. boundary_hit now c}"
proof (induction cs arbitrary: s)
  case Nil
  show ?case by simp
next
  case (Cons a cs)
  have "firedAlarms (checkClass now s a) = firedAlarms s \<union> (if boundary_hit now a then {class_id a} else {})"
    by (auto simp: checkClass_fired triggers_def)
  then show ?case
    unfolding foldl_Cons Cons.IH by auto
qed

lemma forEach_log:
  "\<exists>new. firedLog (foldl (checkClass now) s cs) = firedLog s @ new \<and>
     (\<forall>p\<in>set new. fst p = now \<and> snd p \<in> set cs \<and> boundary_hit now (snd p))"
proof (induction cs arbitrary: s)
  case Nil
  show ?case by simp
next
  case (Cons a cs)
  obtain new where n: "firedLog (foldl (checkClass now) (checkClass now s a) cs) = firedLog (checkClass now s a) @ new"
      "\<forall>p\<in>set new. fst p = now \<and> snd p \<in> set cs \<and> boundary_hit now (snd p)"
    using Cons.IH [of "checkClass now s a"] by blast
  show ?case
  proof (cases "triggers now s a")
    case True
    then have "firedLog (foldl (checkClass now) s (a # cs)) = firedLog s @ ((now, a) # new)"
      using n(1) by (simp add: checkClass_log)
    moreover have "\<forall>p\<in>set ((now, a) # new). fst p = now \<and> snd p \<in> set (a # cs) \<and> boundary_hit now (snd p)"
      using n(2) True by (auto simp: triggers_def)
    ultimately show ?thesis by blast
  next
    case False
    then have "firedLog (foldl (checkClass now) s (a # cs)) = firedLog s @ new"
      using n(1) by (simp add: checkClass_log)
    moreover have "\<forall>p\<in>set new. fst p = now \<and> snd p \<in> set (a # cs) \<and> boundary_hit now (snd p)"
      using n(2) by auto
    ultimately show ?thesis by blast
  qed
qed

lemma onmessage_log:
  "\<exists>new. firedLog (onmessage now s) = firedLog s @ new \<and>
     (\<forall>p\<in>set new. fst p = now \<and> snd p \<in> set (handlerClasses s) \<and> boundary_hit now (snd p))"
proof (cases "truthy_str (handlerUser s) \<and> handlerAlarm s = None")
  case False
  then have "firedLog (onmessage now s) = firedLog s @ []"
    by (auto simp: onmessage_skipped)
  then show ?thesis by force
next
  case True
  then show ?thesis
    using forEach_log [of now "rollover now (s\<lparr>currentTime := now\<rparr>)" "handlerClasses s"]
    by (simp add: onmessage_processed)
qed

lemma step_log: "\<exists>new. firedLog (step s e) = firedLog s @ new"
  using onmessage_log [of _ s] by (cases e) auto

lemma step_count_mono: "fired_count c s \<le> fired_count c (step s e)"
  using step_log [of s e] by (auto simp: fired_count_def)

lemma run_count_mono: "fired_count c s \<le> fired_count c (run es s)"
proof (induction es arbitrary: s)
  case Nil
  show ?case by simp
next
  case (Cons e es)
  have "fired_count c s \<le> fired_count c (step s e)"
    by (rule step_count_mono)
  also have "\<dots> \<le> fired_count c (run es (step s e))"
    by (rule Cons.IH)
  finally show ?case by simp
qed

lemma tick_count_only_at_hit:
  assumes "fired_count c s < fired_count c (onmessage now s)"
  shows "boundary_hit now c \<and> c \<in> set (handlerClasses s)"
proof -
  obtain new where n: "firedLog (onmessage now s) = firedLog s @ new"
      "\<forall>p\<in>set new. fst p = now \<and> snd p \<in> set (handlerClasses s) \<and> boundary_hit now (snd p)"
    using onmessage_log by blast
  from assms n(1) have "filter (\<lambda>p. snd p = c) new \<noteq> []"
    by (auto simp: fired_count_def)
  then obtain p where "p \<in> set new" "snd p = c"
    by (auto simp: filter_empty_conv)
  with n(2) show ?thesis by auto
qed

lemma tick_no_hit_no_count:
  "\<not> boundary_hit now c \<Longrightarrow> fired_count c (onmessage now s) = fired_count c s"
  using tick_count_only_at_hit [of c s now] step_count_mono [of c s "Tick now"]
  by (cases "fired_count c s < fired_count c (onmessage now s)") auto

lemma forEach_fires:
  assumes "c \<in> set cs" "boundary_hit now c" "class_id c \<notin> firedAlarms s"
    and "\<forall>c'\<in>set cs. class_id c' = class_id c \<longrightarrow> c' = c"
  shows "fired_count c (foldl (checkClass now) s cs) = fired_count c s + 1"
  using assms
proof (induction cs arbitrary: s)
  case Nil
  then show ?case by simp
next
  case (Cons a cs)
  show ?case
  proof (cases "a = c")
    case True
    let ?s1 = "checkClass now s c"
    have t: "triggers now s c"
      using Cons.prems by (simp add: triggers_def)
    then have c1: "fired_count c ?s1 = fired_count c s + 1" and f1: "class_id c \<in> firedAlarms ?s1"
      by (simp_all add: fired_count_def checkClass_log checkClass_fired)
    have "length (filter (\<lambda>p. snd p = c) (firedLog (foldl (checkClass now) ?s1 cs))) +
            (if class_id c \<in> firedAlarms (foldl (checkClass now) ?s1 cs) then 0 else 1)
          \<le> length (filter (\<lambda>p. snd p = c) (firedLog ?s1)) +
            (if class_id c \<in> firedAlarms ?s1 then 0 else (1::nat))"
      by (rule forEach_budget) simp
    then have "fired_count c (foldl (checkClass now) ?s1 cs) \<le> fired_count c ?s1"
      using f1 by (simp add: fired_count_def split: if_splits)
    moreover have "fired_count c ?s1 \<le> fired_count c (foldl (checkClass now) ?s1 cs)"
      using forEach_log [of now ?s1 cs] by (auto simp: fired_count_def)
    ultimately show ?thesis
      using c1 True by simp
  next
    case False
    let ?s1 = "checkClass now s a"
    from False Cons.prems have ne: "class_id a \<noteq> class_id c" and mem: "c \<in> set cs"
      by auto
    have "class_id c \<notin> firedAlarms ?s1"
      using Cons.prems(3) ne by (simp add: checkClass_fired)
    moreover have "fired_count c ?s1 = fired_count c s"
      using False by (simp add: fired_count_def checkClass_log)
    moreover have "\<forall>c'\<in>set cs. class_id c' = class_id c \<longrightarrow> c' = c"
      using Cons.prems(4) by simp
    ultimately show ?thesis
      using Cons.IH [of ?s1] mem Cons.prems(2) by simp
  qed
qed

lemmas eval_defs = run_def onmessage_def checkAlarms_def rollover_def checkClass_def triggerAlarm_def
  stopAlarm_def toggleTestSound_def elapse_def setTimeout_def clearTimeout_def truthy_handle_def
  truthy_str_def includes_str_def dayName_def DAYS_OF_WEEK_def timeStr_digits str_def
  init_state_def lesson_def at_time_def Let_def fired_count_def fired_count_id_def

theorem dedup_at_most_once_per_minute_witness:
  "map getMinutes (ticks [Tick (at_time 0 8 30), Tick (at_time 0 8 30), Stop, Tick (at_time 0 8 30)]) =
     [30, 30, 30] \<and>
   fired_count_id (str ''1'') (init_state (str ''u'') [lesson ''1'' ''08:00'' ''08:30''] (at_time 0 8 29)) = 0 \<and>
   fired_count_id (str ''1'')
     (run [Tick (at_time 0 8 30), Tick (at_time 0 8 30), Stop, Tick (at_time 0 8 30)]
        (init_state (str ''u'') [lesson ''1'' ''08:00'' ''08:30''] (at_time 0 8 29))) \<le> 1"
  using dedup_at_most_once_per_minute
    [of "[Tick (at_time 0 8 30), Tick (at_time 0 8 30), Stop, Tick (at_time 0 8 30)]" 30 "str ''1''"
        "init_state (str ''u'') [lesson ''1'' ''08:00'' ''08:30''] (at_time 0 8 29)"]
  by (simp add: at_time_def init_state_def fired_count_id_def)

subsection \<open>The fired-set and the minute\<close>

lemma tick_fired_set:
  assumes "truthy_str (handlerUser s)" "handlerAlarm s = None"
  shows "lastMinute (onmessage now s) = int (getMinutes now) \<and>
         firedAlarms (onmessage now s) =
           (if int (getMinutes now) \<noteq> lastMinute s then {} else firedAlarms s) \<union>
           class_id ` {c \<in> set (handlerClasses s). boundary_hit now c}"
  using assms by (simp add: onmessage_processed forEach_fired)

lemma step_not_tick_frame:
  "(\<forall>t. e \<noteq> Tick t) \<Longrightarrow> firedAlarms (step s e) = firedAlarms s \<and> lastMinute (step s e) = lastMinute s"
  by (cases e) simp_all

lemma forEach_fired_logged:
  assumes "i \<in> firedAlarms (foldl (checkClass now) s cs)"
  shows "i \<in> firedAlarms s \<or>
         (\<exists>c. (now, c) \<in> set (firedLog (foldl (checkClass now) s cs)) \<and> class_id c = i)"
  using assms
proof (induction cs arbitrary: s)
  case Nil
  then show ?case by simp
next
  case (Cons a cs)
  let ?s1 = "checkClass now s a"
  let ?s' = "foldl (checkClass now) ?s1 cs"
  from Cons.IH [of ?s1] Cons.prems
  consider "i \<in> firedAlarms ?s1" | "\<exists>c. (now, c) \<in> set (firedLog ?s') \<and> class_id c = i"
    by auto
  then show ?case
  proof cases
    case 1
    show ?thesis
    proof (cases "i \<in> firedAlarms s")
      case True
      then show ?thesis by simp
    next
      case False
      with 1 have "triggers now s a" "class_id a = i"
        by (auto simp: checkClass_fired split: if_splits)
      then have "(now, a) \<in> set (firedLog ?s1)"
        by (simp add: checkClass_log)
      moreover obtain new where "firedLog ?s' = firedLog ?s1 @ new"
        using forEach_log by blast
      ultimately have "(now, a) \<in> set (firedLog ?s')"
        by simp
      with \<open>class_id a = i\<close> show ?thesis by auto
    qed
  next
    case 2
    then show ?thesis by simp
  qed
qed

lemma tick_keeps_fired_in_last_minute:
  assumes "fired_in_last_minute s"
  shows "fired_in_last_minute (onmessage now s)"
proof (cases "truthy_str (handlerUser s) \<and> handlerAlarm s = None")
  case False
  then show ?thesis
    using assms by (auto simp: onmessage_skipped fired_in_last_minute_def)
next
  case True
  let ?s' = "onmessage now s"
  obtain new where n: "firedLog ?s' = firedLog s @ new"
    using onmessage_log by blast
  have lm: "lastMinute ?s' = int (getMinutes now)"
    and fs: "firedAlarms ?s' = (if int (getMinutes now) \<noteq> lastMinute s then {} else firedAlarms s) \<union>
           class_id ` {c \<in> set (handlerClasses s). boundary_hit now c}"
    using True tick_fired_set [of s now] by simp_all
  show ?thesis
    unfolding fired_in_last_minute_def
  proof
    fix i assume i: "i \<in> firedAlarms ?s'"
    show "\<exists>p\<in>set (firedLog ?s'). class_id (snd p) = i \<and> int (getMinutes (fst p)) = lastMinute ?s'"
    proof (cases "i \<in> firedAlarms s \<and> int (getMinutes now) = lastMinute s")
      case True
      then obtain p where "p \<in> set (firedLog s)" "class_id (snd p) = i" "int (getMinutes (fst p)) = lastMinute s"
        using assms by (auto simp: fired_in_last_minute_def)
      then show ?thesis
        using True n lm by auto
    next
      case False
      then have old: "i \<notin> firedAlarms (rollover now (s\<lparr>currentTime := now\<rparr>))"
        by auto
      have "i \<in> firedAlarms (foldl (checkClass now) (rollover now (s\<lparr>currentTime := now\<rparr>)) (handlerClasses s))"
        using i True by (simp add: onmessage_processed)
      from forEach_fired_logged [OF this] old
      obtain c where "(now, c) \<in> set (firedLog ?s')" "class_id c = i"
        using True by (auto simp: onmessage_processed)
      then show ?thesis
        using lm by force
    qed
  qed
qed


lemma run_keeps_fired_in_last_minute:
  "fired_in_last_minute s \<Longrightarrow> fired_in_last_minute (run es s)"
proof (induction es arbitrary: s)
  case Nil
  then show ?case by simp
next
  case (Cons e es)
  have "fired_in_last_minute (step s e)"
  proof (cases e)
    case (Tick now)
    with Cons.prems show ?thesis
      by (simp add: tick_keeps_fired_in_last_minute)
  qed (use Cons.prems in \<open>simp_all add: fired_in_last_minute_def\<close>)
  then show ?case
    by (simp add: Cons.IH)
qed

text \<open>
  C3. On every processed tick (the handler's guard sees a logged-in user and no alarm)
  the last-seen minute becomes the tick's minute, and the fired-set after the tick is
  the set of ids of the classes hit at this tick, joined with the old fired-set only if
  the minute is unchanged: when the minute differs the old ids are dropped before any
  class is looked at. A tick that the guard turns away, and every event other than a
  tick, leaves the fired-set and the last-seen minute as they are.
  Consequently, along any run, every id in the fired-set was inserted by a tick whose
  minute is the last-seen minute.
\<close>

theorem fired_set_reset_on_rollover:
  "(truthy_str (handlerUser s) \<and> handlerAlarm s = None \<longrightarrow>
      lastMinute (onmessage now s) = int (getMinutes now) \<and>
      firedAlarms (onmessage now s) =
        (if int (getMinutes now) \<noteq> lastMinute s then {} else firedAlarms s) \<union>
        class_id ` {c \<in> set (handlerClasses s). boundary_hit now c}) \<and>
   (\<not> (truthy_str (handlerUser s) \<and> handlerAlarm s = None) \<longrightarrow>
      firedAlarms (onmessage now s) = firedAlarms s \<and>
      lastMinute (onmessage now s) = lastMinute s) \<and>
   ((\<forall>t. e \<noteq> Tick t) \<longrightarrow>
      firedAlarms (step s e) = firedAlarms s \<and> lastMinute (step s e) = lastMinute s) \<and>
   (fired_in_last_minute s \<longrightarrow> fired_in_last_minute (run es s))"
proof -
  have "\<not> (truthy_str (handlerUser s) \<and> handlerAlarm s = None) \<longrightarrow>
      firedAlarms (onmessage now s) = firedAlarms s \<and> lastMinute (onmessage now s) = lastMinute s"
    by (auto simp: onmessage_skipped)
  then show ?thesis
    using tick_fired_set [of s now] step_not_tick_frame [of e s]
      run_keeps_fired_in_last_minute [of s es]
    by blast
qed


theorem fired_set_reset_on_rollover_witness:
  "truthy_str (handlerUser ((init_state (str ''u'') [lesson ''1'' ''08:00'' ''08:30''] (at_time 0 8 29))
      \<lparr>firedAlarms := {str ''9''}, lastMinute := 29\<rparr>)) \<and>
   handlerAlarm ((init_state (str ''u'') [lesson ''1'' ''08:00'' ''08:30''] (at_time 0 8 29))
      \<lparr>firedAlarms := {str ''9''}, lastMinute := 29\<rparr>) = None \<and>
   lastMinute (onmessage (at_time 0 8 30)
     ((init_state (str ''u'') [lesson ''1'' ''08:00'' ''08:30''] (at_time 0 8 29))
        \<lparr>firedAlarms := {str ''9''}, lastMinute := 29\<rparr>)) = 30 \<and>
   firedAlarms (onmessage (at_time 0 8 30)
     ((init_state (str ''u'') [lesson ''1'' ''08:00'' ''08:30''] (at_time 0 8 29))
        \<lparr>firedAlarms := {str ''9''}, lastMinute := 29\<rparr>)) = {str ''1''}"
proof -
  let ?s = "(init_state (str ''u'') [lesson ''1'' ''08:00'' ''08:30''] (at_time 0 8 29))
      \<lparr>firedAlarms := {str ''9''}, lastMinute := 29\<rparr>"
  have g: "truthy_str (handlerUser ?s) \<and> handlerAlarm ?s = None"
    by (simp add: init_state_def truthy_str_def str_def)
  have hit: "boundary_hit (at_time 0 8 30) (lesson ''1'' ''08:00'' ''08:30'')"
    by (simp add: boundary_hit_def lesson_def at_time_def includes_str_def dayName_def
        DAYS_OF_WEEK_def timeStr_digits str_def)
  have "{c \<in> set (handlerClasses ?s). boundary_hit (at_time 0 8 30) c} = {lesson ''1'' ''08:00'' ''08:30''}"
    using hit by (auto simp: init_state_def)
  moreover have "class_id (lesson ''1'' ''08:00'' ''08:30'') = str ''1''"
    by (simp add: lesson_def)
  moreover have "getMinutes (at_time 0 8 30) = 30" "lastMinute ?s = 29"
    by (simp_all add: at_time_def)
  ultimately show ?thesis
    using fired_set_reset_on_rollover [of ?s "at_time 0 8 30" Stop "[]"] g
    by simp
qed

text \<open>
  C10 asks that a tick change nothing when no user is logged in or an alarm is already
  active. The guard of \<open>checkAlarms\<close> is written for that, and it holds for the user,
  whose change runs the worker effect again. It does not hold for the alarm: the
  handler tests the \<open>activeAlarm\<close> of the render in which the effect last ran, not the
  one that \<open>triggerAlarm\<close> has set since. Here the test alarm is ringing when the tick
  of Sunday 08:30 arrives, and the class ends at 08:30: the tick resets the last-seen
  minute, puts the id in the fired-set, replaces the active alarm by the alarm of the
  class, arms a second timer and shows a notification.
\<close>

theorem tick_processed_while_ringing:
  "activeAlarm (run [TestButton]
      (init_state (str ''u'') [lesson ''1'' ''08:00'' ''08:30''] (at_time 0 8 29))) =
     Some \<lparr>isActive = True, className = testLabel, type = Start\<rparr> \<and>
   lastMinute (run [TestButton]
      (init_state (str ''u'') [lesson ''1'' ''08:00'' ''08:30''] (at_time 0 8 29))) = - 1 \<and>
   firedAlarms (run [TestButton]
      (init_state (str ''u'') [lesson ''1'' ''08:00'' ''08:30''] (at_time 0 8 29))) = {} \<and>
   activeAlarm (run [TestButton, Tick (at_time 0 8 30)]
      (init_state (str ''u'') [lesson ''1'' ''08:00'' ''08:30''] (at_time 0 8 29))) =
     Some \<lparr>isActive = True, className = str ''Maths'', type = End\<rparr> \<and>
   lastMinute (run [TestButton, Tick (at_time 0 8 30)]
      (init_state (str ''u'') [lesson ''1'' ''08:00'' ''08:30''] (at_time 0 8 29))) = 30 \<and>
   firedAlarms (run [TestButton, Tick (at_time 0 8 30)]
      (init_state (str ''u'') [lesson ''1'' ''08:00'' ''08:30''] (at_time 0 8 29))) = {str ''1''} \<and>
   timers (run [TestButton, Tick (at_time 0 8 30)]
      (init_state (str ''u'') [lesson ''1'' ''08:00'' ''08:30''] (at_time 0 8 29))) = [(2, 20000)] \<and>
   notifications (run [TestButton, Tick (at_time 0 8 30)]
      (init_state (str ''u'') [lesson ''1'' ''08:00'' ''08:30''] (at_time 0 8 29))) =
     [notificationTitle (str ''Maths'')]"
  by (simp add: eval_defs)

lemma timeStr_inj:
  assumes "getHours a < 100" "getMinutes a < 100" "getHours b < 100" "getMinutes b < 100"
  shows "timeStr a = timeStr b \<longleftrightarrow> getHours a = getHours b \<and> getMinutes a = getMinutes b"
proof
  assume "timeStr a = timeStr b"
  then have "getHours a div 10 = getHours b div 10 \<and> getHours a mod 10 = getHours b mod 10 \<and>
             getMinutes a div 10 = getMinutes b div 10 \<and> getMinutes a mod 10 = getMinutes b mod 10"
    using assms by (simp add: timeStr_digits)
  then show "getHours a = getHours b \<and> getMinutes a = getMinutes b"
    by (metis div_mult_mod_eq)
next
  assume "getHours a = getHours b \<and> getMinutes a = getMinutes b"
  then show "timeStr a = timeStr b"
    by (simp add: timeStr_def)
qed

lemma timeStr_0830:
  assumes "getHours now < 24" "getMinutes now < 60"
  shows "timeStr now = str ''08:30'' \<longleftrightarrow> getHours now = 8 \<and> getMinutes now = 30"
proof -
  have "timeStr (at_time 0 8 30) = str ''08:30''"
    by (simp add: at_time_def timeStr_digits str_def)
  moreover have "timeStr now = timeStr (at_time 0 8 30) \<longleftrightarrow> getHours now = 8 \<and> getMinutes now = 30"
    using assms by (subst timeStr_inj) (simp_all add: at_time_def)
  ultimately show ?thesis by simp
qed

lemma tick_fires:
  assumes "truthy_str (handlerUser s)" "handlerAlarm s = None" "c \<in> set (handlerClasses s)"
    and "boundary_hit now c"
    and "class_id c \<notin> firedAlarms s \<or> int (getMinutes now) \<noteq> lastMinute s"
    and "\<forall>c'\<in>set (handlerClasses s). class_id c' = class_id c \<longrightarrow> c' = c"
  shows "fired_count c (onmessage now s) = fired_count c s + 1"
proof -
  let ?r = "rollover now (s\<lparr>currentTime := now\<rparr>)"
  have "class_id c \<notin> firedAlarms ?r"
    using assms(5) by auto
  with assms have "fired_count c (foldl (checkClass now) ?r (handlerClasses s)) = fired_count c ?r + 1"
    by (intro forEach_fires) simp_all
  then show ?thesis
    using assms(1,2) by (simp add: onmessage_processed fired_count_def)
qed

lemma checkClass_no_trigger: "\<not> triggers now s c \<Longrightarrow> checkClass now s c = s"
  by (auto simp: checkClass_def triggers_def boundary_hit_def)

lemma triggerAlarm_nextHandle [simp]: "nextHandle (triggerAlarm cn ty s) = Suc (nextHandle s)"
  by (simp add: triggerAlarm_def Let_def setTimeout_def clearTimeout_def)

lemma checkClass_trigger:
  assumes "triggers now s c"
  shows "activeAlarm (checkClass now s c) = Some \<lparr>isActive = True, className = name c, type = End\<rparr> \<and>
         nextHandle (checkClass now s c) = Suc (nextHandle s)"
  using assms by (simp add: checkClass_def triggers_def boundary_hit_def Let_def)

lemma forEach_no_end_time:
  "\<forall>c\<in>set cs. timeStr now \<noteq> endTime c \<Longrightarrow> foldl (checkClass now) s cs = s"
  by (induction cs arbitrary: s) (simp_all add: checkClass_no_trigger triggers_def boundary_hit_def)

lemma tick_no_end_time:
  assumes "\<forall>c\<in>set (handlerClasses s). timeStr now \<noteq> endTime c"
  shows "activeAlarm (onmessage now s) = activeAlarm s \<and> timers (onmessage now s) = timers s \<and>
         notifications (onmessage now s) = notifications s"
proof (cases "truthy_str (handlerUser s) \<and> handlerAlarm s = None")
  case False
  then show ?thesis by (auto simp: onmessage_skipped)
next
  case True
  then have "onmessage now s = rollover now (s\<lparr>currentTime := now\<rparr>)"
    using assms by (simp add: onmessage_processed forEach_no_end_time)
  then show ?thesis by (simp add: rollover_def)
qed

text \<open>
  C6, as the code has it. For an enabled class that is active on the tick's weekday, the
  body of the loop triggers the alarm (the class becomes the active alarm, of kind end,
  a timer is armed and the id enters the fired-set) exactly when the tick's zero-padded
  \<open>HH:mm\<close> string equals the class's end time and the id is not yet in the fired-set;
  otherwise it changes nothing. A class ending at 08:30 is triggered at no instant
  other than 08:30, so neither at 08:29 nor at 08:31, and a tick at an instant that is
  the end time of no class of the list leaves the active alarm, the timers and the
  notifications as they are.
\<close>

theorem boundary_exactness:
  assumes "active c" "includes_str (days c) (dayName now)"
  shows "(timeStr now = endTime c \<and> class_id c \<notin> firedAlarms s \<longrightarrow>
            activeAlarm (checkClass now s c) =
              Some \<lparr>isActive = True, className = name c, type = End\<rparr> \<and>
            nextHandle (checkClass now s c) = Suc (nextHandle s) \<and>
            class_id c \<in> firedAlarms (checkClass now s c) \<and>
            firedLog (checkClass now s c) = firedLog s @ [(now, c)]) \<and>
         (\<not> (timeStr now = endTime c \<and> class_id c \<notin> firedAlarms s) \<longrightarrow>
            checkClass now s c = s) \<and>
         (endTime c = str ''08:30'' \<and> getHours now < 24 \<and> getMinutes now < 60 \<and>
          \<not> (getHours now = 8 \<and> getMinutes now = 30) \<longrightarrow>
            checkClass now s c = s) \<and>
         ((\<forall>c'\<in>set (handlerClasses s). timeStr now \<noteq> endTime c') \<longrightarrow>
            activeAlarm (onmessage now s) = activeAlarm s \<and>
            timers (onmessage now s) = timers s \<and>
            notifications (onmessage now s) = notifications s)"
proof -
  have t: "triggers now s c \<longleftrightarrow> timeStr now = endTime c \<and> class_id c \<notin> firedAlarms s"
    using assms by (simp add: triggers_def boundary_hit_def)
  have a: "timeStr now = endTime c \<and> class_id c \<notin> firedAlarms s \<longrightarrow>
            activeAlarm (checkClass now s c) =
              Some \<lparr>isActive = True, className = name c, type = End\<rparr> \<and>
            nextHandle (checkClass now s c) = Suc (nextHandle s) \<and>
            class_id c \<in> firedAlarms (checkClass now s c) \<and>
            firedLog (checkClass now s c) = firedLog s @ [(now, c)]"
    using t checkClass_trigger [of now s c] by (simp add: checkClass_fired checkClass_log)
  have b: "\<not> (timeStr now = endTime c \<and> class_id c \<notin> firedAlarms s) \<longrightarrow> checkClass now s c = s"
    using t checkClass_no_trigger [of now s c] by blast
  have c: "endTime c = str ''08:30'' \<and> getHours now < 24 \<and> getMinutes now < 60 \<and>
          \<not> (getHours now = 8 \<and> getMinutes now = 30) \<longrightarrow> checkClass now s c = s"
    using timeStr_0830 [of now] b by auto
  have d: "(\<forall>c'\<in>set (handlerClasses s). timeStr now \<noteq> endTime c') \<longrightarrow>
            activeAlarm (onmessage now s) = activeAlarm s \<and>
            timers (onmessage now s) = timers s \<and>
            notifications (onmessage now s) = notifications s"
    using tick_no_end_time [of s now] by blast
  from a b c d show ?thesis by blast
qed

theorem boundary_exactness_witness:
  "activeAlarm (checkClass (at_time 0 8 30)
      (init_state (str ''u'') [lesson ''1'' ''08:00'' ''08:30''] (at_time 0 8 28))
      (lesson ''1'' ''08:00'' ''08:30'')) =
     Some \<lparr>isActive = True, className = str ''Maths'', type = End\<rparr> \<and>
   checkClass (at_time 0 8 29)
      (init_state (str ''u'') [lesson ''1'' ''08:00'' ''08:30''] (at_time 0 8 28))
      (lesson ''1'' ''08:00'' ''08:30'') =
     init_state (str ''u'') [lesson ''1'' ''08:00'' ''08:30''] (at_time 0 8 28) \<and>
   checkClass (at_time 0 8 31)
      (init_state (str ''u'') [lesson ''1'' ''08:00'' ''08:30''] (at_time 0 8 28))
      (lesson ''1'' ''08:00'' ''08:30'') =
     init_state (str ''u'') [lesson ''1'' ''08:00'' ''08:30''] (at_time 0 8 28)"
proof -
  let ?c = "lesson ''1'' ''08:00'' ''08:30''"
  let ?s = "init_state (str ''u'') [?c] (at_time 0 8 28)"
  have g: "active ?c"
    by (simp add: lesson_def)
  have d: "includes_str (days ?c) (dayName (at_time 0 8 m))" for m
    by (simp add: lesson_def at_time_def includes_str_def dayName_def DAYS_OF_WEEK_def)
  have z: "class_id ?c \<notin> firedAlarms ?s" "endTime ?c = str ''08:30''" "name ?c = str ''Maths''"
    by (simp_all add: init_state_def lesson_def)
  have t: "timeStr (at_time 0 8 30) = endTime ?c"
    by (simp add: lesson_def at_time_def timeStr_digits str_def)
  note w = boundary_exactness [OF g d, of _ ?s]
  have "activeAlarm (checkClass (at_time 0 8 30) ?s ?c) =
      Some \<lparr>isActive = True, className = str ''Maths'', type = End\<rparr>"
    using w [of 30, THEN conjunct1] z t by simp
  moreover have "checkClass (at_time 0 8 29) ?s ?c = ?s"
    using w [of 29, THEN conjunct2, THEN conjunct2, THEN conjunct1] z
    by (simp add: at_time_def)
  moreover have "checkClass (at_time 0 8 31) ?s ?c = ?s"
    using w [of 31, THEN conjunct2, THEN conjunct2, THEN conjunct1] z
    by (simp add: at_time_def)
  ultimately show ?thesis by simp
qed

text \<open>
  C6 as stated fails: equality with the end time does not always trigger the alarm. The
  tick of Sunday 08:30 rings the alarm of the class ending then, and the user stops it.
  The next tick of the same minute finds the class enabled, active on that day and at
  its end time, and triggers nothing: the id is in the fired-set, no alarm becomes
  active, no timer is armed and no further notification is shown.
\<close>

theorem boundary_exactness_counterexample:
  "active (lesson ''1'' ''08:00'' ''08:30'') \<and>
   includes_str (days (lesson ''1'' ''08:00'' ''08:30'')) (dayName (at_time 0 8 30)) \<and>
   timeStr (at_time 0 8 30) = endTime (lesson ''1'' ''08:00'' ''08:30'') \<and>
   activeAlarm (run [Tick (at_time 0 8 30), Stop]
      (init_state (str ''u'') [lesson ''1'' ''08:00'' ''08:30''] (at_time 0 8 29))) = None \<and>
   nextHandle (run [Tick (at_time 0 8 30), Stop]
      (init_state (str ''u'') [lesson ''1'' ''08:00'' ''08:30''] (at_time 0 8 29))) = 2 \<and>
   activeAlarm (run [Tick (at_time 0 8 30), Stop, Tick (at_time 0 8 30)]
      (init_state (str ''u'') [lesson ''1'' ''08:00'' ''08:30''] (at_time 0 8 29))) = None \<and>
   nextHandle (run [Tick (at_time 0 8 30), Stop, Tick (at_time 0 8 30)]
      (init_state (str ''u'') [lesson ''1'' ''08:00'' ''08:30''] (at_time 0 8 29))) = 2 \<and>
   timers (run [Tick (at_time 0 8 30), Stop, Tick (at_time 0 8 30)]
      (init_state (str ''u'') [lesson ''1'' ''08:00'' ''08:30''] (at_time 0 8 29))) = [] \<and>
   notifications (run [Tick (at_time 0 8 30), Stop, Tick (at_time 0 8 30)]
      (init_state (str ''u'') [lesson ''1'' ''08:00'' ''08:30''] (at_time 0 8 29))) =
     [notificationTitle (str ''Maths'')]"
  by (simp add: eval_defs)

subsection \<open>Runs within one day\<close>

lemma step_frame [simp]:
  "classes (step s e) = classes s"
  "handlerUser (step s e) = handlerUser s"
  "handlerClasses (step s e) = handlerClasses s"
  "handlerAlarm (step s e) = handlerAlarm s"
  "currentUser (step s e) = currentUser s"
  by (cases e; simp)+

lemma run_frame [simp]:
  "classes (run es s) = classes s"
  "handlerUser (run es s) = handlerUser s"
  "handlerClasses (run es s) = handlerClasses s"
  "handlerAlarm (run es s) = handlerAlarm s"
  "currentUser (run es s) = currentUser s"
  by (induction es arbitrary: s) simp_all

lemma step_not_tick_count: "(\<forall>t. e \<noteq> Tick t) \<Longrightarrow> fired_count c (step s e) = fired_count c s"
  by (cases e) (simp_all add: fired_count_def)

lemma run_no_hit_no_count:
  assumes "\<forall>t\<in>set (ticks es). timeStr t \<noteq> endTime c"
  shows "fired_count c (run es s) = fired_count c s"
  using assms
proof (induction es arbitrary: s)
  case Nil
  show ?case by simp
next
  case (Cons e es)
  have "fired_count c (step s e) = fired_count c s"
  proof (cases e)
    case (Tick t)
    with Cons.prems have "\<not> boundary_hit t c"
      by (simp add: boundary_hit_def)
    then show ?thesis
      unfolding Tick by (simp add: tick_no_hit_no_count)
  qed (simp_all add: fired_count_def)
  moreover have "\<forall>t\<in>set (ticks es). timeStr t \<noteq> endTime c"
    using Cons.prems by (cases e) simp_all
  ultimately show ?case
    using Cons.IH [of "step s e"] by simp
qed

lemma minuteOfDay_split:
  assumes "valid_date a"
  shows "getHours a = minuteOfDay a div 60 \<and> getMinutes a = minuteOfDay a mod 60"
  using assms by (simp add: valid_date_def minuteOfDay_def)

lemma minuteOfDay_inj:
  assumes "valid_date a" "valid_date b" "minuteOfDay a = minuteOfDay b"
  shows "getHours a = getHours b \<and> getMinutes a = getMinutes b"
  using minuteOfDay_split [OF assms(1)] minuteOfDay_split [OF assms(2)] assms(3) by simp

lemma timeStr_minuteOfDay:
  assumes "valid_date a" "valid_date b" "timeStr a = timeStr b"
  shows "minuteOfDay a = minuteOfDay b"
proof -
  have "getHours a = getHours b \<and> getMinutes a = getMinutes b"
    using assms timeStr_inj [of a b] by (simp add: valid_date_def)
  then show ?thesis
    by (simp add: minuteOfDay_def)
qed

text \<open>
  From a tick of the end minute on, in a time-ordered day: the count for \<open>c\<close> grows by at
  most one, and not at all once the id is in the fired-set of that minute.
\<close>

lemma run_budget_from_end_minute:
  assumes "timeStr t0 = endTime c" "valid_date t0"
    and "sorted (minuteOfDay t0 # map minuteOfDay (ticks es))"
    and "\<forall>t\<in>set (ticks es). valid_date t"
  shows "fired_count c (run es s) \<le>
         fired_count c s + (if lastMinute s = int (getMinutes t0) \<and> class_id c \<in> firedAlarms s then 0 else 1)"
  using assms(3,4)
proof (induction es arbitrary: s)
  case Nil
  show ?case by simp
next
  case (Cons e es)
  show ?case
  proof (cases e)
    case (Tick t)
    from Cons.prems Tick have le: "minuteOfDay t0 \<le> minuteOfDay t" and vt: "valid_date t"
      and rest: "\<forall>u\<in>set (ticks es). minuteOfDay t \<le> minuteOfDay u" "\<forall>u\<in>set (ticks es). valid_date u"
      and srt: "sorted (minuteOfDay t0 # map minuteOfDay (ticks es))"
      by auto
    show ?thesis
    proof (cases "minuteOfDay t = minuteOfDay t0")
      case True
      then have m: "getMinutes t = getMinutes t0"
        using minuteOfDay_inj [OF vt assms(2)] by simp
      have "length (filter (\<lambda>p. snd p = c) (firedLog (onmessage t s))) +
           (if lastMinute (onmessage t s) = int (getMinutes t0) \<and> class_id c \<in> firedAlarms (onmessage t s) then 0 else 1)
         \<le> length (filter (\<lambda>p. snd p = c) (firedLog s)) +
           (if lastMinute s = int (getMinutes t0) \<and> class_id c \<in> firedAlarms s then 0 else (1::nat))"
        using m by (intro tick_budget) simp_all
      then have "fired_count c (onmessage t s) +
           (if lastMinute (onmessage t s) = int (getMinutes t0) \<and> class_id c \<in> firedAlarms (onmessage t s) then 0 else 1)
         \<le> fired_count c s +
           (if lastMinute s = int (getMinutes t0) \<and> class_id c \<in> firedAlarms s then 0 else (1::nat))"
        by (simp add: fired_count_def)
      moreover have "fired_count c (run es (onmessage t s)) \<le> fired_count c (onmessage t s) +
           (if lastMinute (onmessage t s) = int (getMinutes t0) \<and> class_id c \<in> firedAlarms (onmessage t s) then 0 else 1)"
        using srt rest(2) by (rule Cons.IH)
      ultimately show ?thesis
        unfolding Tick by simp
    next
      case False
      with le have lt: "minuteOfDay t0 < minuteOfDay t" by simp
      have "timeStr u \<noteq> endTime c" if "u \<in> set (ticks (e # es))" for u
      proof
        assume "timeStr u = endTime c"
        moreover have vu: "valid_date u" and "minuteOfDay t \<le> minuteOfDay u"
          using that Tick vt rest by auto
        ultimately have "minuteOfDay u = minuteOfDay t0"
          using timeStr_minuteOfDay [OF vu assms(2)] assms(1) by simp
        with lt \<open>minuteOfDay t \<le> minuteOfDay u\<close> show False by simp
      qed
      then have "fired_count c (run (e # es) s) = fired_count c s"
        by (intro run_no_hit_no_count) blast
      then show ?thesis by simp
    qed
  next
    case Stop
    with Cons.prems Cons.IH [of "step s e"] show ?thesis
      by (simp add: fired_count_def)
  next
    case TestButton
    with Cons.prems Cons.IH [of "step s e"] show ?thesis
      by (simp add: fired_count_def)
  next
    case (Elapse d)
    with Cons.prems Cons.IH [of "step s e"] show ?thesis
      by (simp add: fired_count_def)
  qed
qed

lemma run_at_most_once:
  assumes "sorted (map minuteOfDay (ticks es))" "\<forall>t\<in>set (ticks es). valid_date t"
  shows "fired_count c (run es s) \<le> fired_count c s + 1"
  using assms
proof (induction es arbitrary: s)
  case Nil
  show ?case by simp
next
  case (Cons e es)
  show ?case
  proof (cases "\<exists>t. e = Tick t \<and> timeStr t = endTime c")
    case True
    then obtain t where t: "e = Tick t" "timeStr t = endTime c" by blast
    have "fired_count c (run (e # es) s) \<le>
         fired_count c s + (if lastMinute s = int (getMinutes t) \<and> class_id c \<in> firedAlarms s then 0 else 1)"
      using t Cons.prems by (intro run_budget_from_end_minute) auto
    then show ?thesis
      by (simp split: if_splits)
  next
    case False
    have "fired_count c (step s e) = fired_count c s"
    proof (cases e)
      case (Tick t)
      with False have "\<not> boundary_hit t c"
        by (simp add: boundary_hit_def)
      then show ?thesis
        unfolding Tick by (simp add: tick_no_hit_no_count)
    qed (simp_all add: fired_count_def)
    moreover have "sorted (map minuteOfDay (ticks es))" "\<forall>t\<in>set (ticks es). valid_date t"
      using Cons.prems by (cases e; simp)+
    ultimately show ?thesis
      using Cons.IH [of "step s e"] by simp
  qed
qed

lemma forEach_count_mono: "fired_count c s \<le> fired_count c (foldl (checkClass now) s cs)"
  using forEach_log [of now s cs] by (auto simp: fired_count_def)

lemma forEach_inserted_counts:
  assumes "\<forall>c'\<in>set cs. class_id c' = class_id c \<longrightarrow> c' = c"
    and "class_id c \<in> firedAlarms (foldl (checkClass now) s cs)"
    and "class_id c \<notin> firedAlarms s"
  shows "fired_count c s < fired_count c (foldl (checkClass now) s cs)"
  using assms
proof (induction cs arbitrary: s)
  case Nil
  then show ?case by simp
next
  case (Cons a cs)
  let ?s1 = "checkClass now s a"
  have d: "\<forall>c'\<in>set cs. class_id c' = class_id c \<longrightarrow> c' = c"
    using Cons.prems(1) by simp
  show ?case
  proof (cases "class_id c \<in> firedAlarms ?s1")
    case True
    with Cons.prems(3) have "triggers now s a" "class_id a = class_id c"
      by (auto simp: checkClass_fired split: if_splits)
    moreover from this Cons.prems(1) have "a = c" by simp
    ultimately have "fired_count c ?s1 = fired_count c s + 1"
      by (simp add: fired_count_def checkClass_log)
    moreover have "fired_count c ?s1 \<le> fired_count c (foldl (checkClass now) ?s1 cs)"
      by (rule forEach_count_mono)
    ultimately show ?thesis by simp
  next
    case False
    have "fired_count c s \<le> fired_count c ?s1"
      by (auto simp: fired_count_def checkClass_log)
    also have "\<dots> < fired_count c (foldl (checkClass now) ?s1 cs)"
      using d Cons.prems(2) False by (intro Cons.IH) simp_all
    finally show ?thesis by simp
  qed
qed

text \<open>
  With unique ids, the id of \<open>c\<close> is in the fired-set only if \<open>c\<close> has been triggered
  since the count stood at \<open>n\<close>.
\<close>

lemma tick_keeps_fired_counted:
  assumes "\<forall>c'\<in>set (handlerClasses s). class_id c' = class_id c \<longrightarrow> c' = c"
    and "n \<le> fired_count c s"
    and "class_id c \<in> firedAlarms s \<longrightarrow> n < fired_count c s"
  shows "class_id c \<in> firedAlarms (onmessage now s) \<longrightarrow> n < fired_count c (onmessage now s)"
proof (cases "truthy_str (handlerUser s) \<and> handlerAlarm s = None")
  case False
  then show ?thesis
    using assms(3) by (auto simp: onmessage_skipped fired_count_def)
next
  case True
  let ?r = "rollover now (s\<lparr>currentTime := now\<rparr>)"
  have eq: "onmessage now s = foldl (checkClass now) ?r (handlerClasses s)"
    using True by (simp add: onmessage_processed)
  have cr: "fired_count c ?r = fired_count c s"
    by (simp add: fired_count_def)
  show ?thesis
  proof
    assume in': "class_id c \<in> firedAlarms (onmessage now s)"
    show "n < fired_count c (onmessage now s)"
    proof (cases "class_id c \<in> firedAlarms ?r")
      case True
      then have "class_id c \<in> firedAlarms s"
        by (auto split: if_splits)
      with assms(3) have "n < fired_count c ?r"
        using cr by simp
      also have "\<dots> \<le> fired_count c (onmessage now s)"
        unfolding eq by (rule forEach_count_mono)
      finally show ?thesis .
    next
      case False
      have "fired_count c ?r < fired_count c (foldl (checkClass now) ?r (handlerClasses s))"
        using assms(1) in' False unfolding eq by (intro forEach_inserted_counts) simp_all
      with assms(2) show ?thesis
        unfolding eq cr by simp
    qed
  qed
qed


lemma run_keeps_fired_counted:
  assumes "\<forall>c'\<in>set (handlerClasses s). class_id c' = class_id c \<longrightarrow> c' = c"
    and "n \<le> fired_count c s"
    and "class_id c \<in> firedAlarms s \<longrightarrow> n < fired_count c s"
  shows "class_id c \<in> firedAlarms (run es s) \<longrightarrow> n < fired_count c (run es s)"
  using assms
proof (induction es arbitrary: s)
  case Nil
  then show ?case by simp
next
  case (Cons e es)
  have 1: "\<forall>c'\<in>set (handlerClasses (step s e)). class_id c' = class_id c \<longrightarrow> c' = c"
    using Cons.prems(1) by simp
  have 2: "n \<le> fired_count c (step s e)"
    using Cons.prems(2) step_count_mono [of c s e] by simp
  have 3: "class_id c \<in> firedAlarms (step s e) \<longrightarrow> n < fired_count c (step s e)"
  proof (cases e)
    case (Tick now)
    show ?thesis
      unfolding Tick step.simps using Cons.prems by (rule tick_keeps_fired_counted)
  qed (use Cons.prems(3) in \<open>simp_all add: fired_count_def\<close>)
  from 1 2 3 show ?case
    using Cons.IH [of "step s e"] by simp
qed

lemma forEach_log_unchanged:
  "firedLog (foldl (checkClass now) s cs) = firedLog s \<Longrightarrow> foldl (checkClass now) s cs = s"
proof (induction cs arbitrary: s)
  case Nil
  show ?case by simp
next
  case (Cons a cs)
  obtain new where n: "firedLog (foldl (checkClass now) (checkClass now s a) cs) =
      firedLog (checkClass now s a) @ new"
    using forEach_log by blast
  have "\<not> triggers now s a"
  proof
    assume "triggers now s a"
    then have "firedLog (checkClass now s a) = firedLog s @ [(now, a)]"
      by (simp add: checkClass_log)
    with n Cons.prems show False by simp
  qed
  then have "checkClass now s a = s"
    by (rule checkClass_no_trigger)
  with Cons show ?case by simp
qed

lemma run_fires_at_processed_hit:
  assumes "c \<in> set (handlerClasses s)"
    and "\<forall>c'\<in>set (handlerClasses s). class_id c' = class_id c \<longrightarrow> c' = c"
    and "class_id c \<notin> firedAlarms s"
    and "boundary_hit t c"
    and "truthy_str (handlerUser s)" "handlerAlarm s = None"
  shows "fired_count c s < fired_count c (run (pre @ Tick t # post) s)"
proof -
  let ?s1 = "run pre s"
  let ?s2 = "onmessage t ?s1"
  have inv: "class_id c \<in> firedAlarms ?s1 \<longrightarrow> fired_count c s < fired_count c ?s1"
    using assms(2,3) by (intro run_keeps_fired_counted) simp_all
  have "fired_count c s < fired_count c ?s2"
  proof (cases "class_id c \<in> firedAlarms ?s1")
    case True
    with inv have "fired_count c s < fired_count c ?s1" by simp
    also have "\<dots> \<le> fired_count c ?s2"
      using step_count_mono [of c ?s1 "Tick t"] by simp
    finally show ?thesis .
  next
    case False
    have "fired_count c ?s2 = fired_count c ?s1 + 1"
      using assms False by (intro tick_fires) simp_all
    moreover have "fired_count c s \<le> fired_count c ?s1"
      by (rule run_count_mono)
    ultimately show ?thesis by simp
  qed
  also have "\<dots> \<le> fired_count c (run post ?s2)"
    by (rule run_count_mono)
  finally show ?thesis by simp
qed

lemma tick_in_run: "t \<in> set (ticks es) \<Longrightarrow> \<exists>pre post. es = pre @ Tick t # post"
proof (induction es)
  case Nil
  then show ?case by simp
next
  case (Cons e es)
  show ?case
  proof (cases "e = Tick t")
    case True
    then have "e # es = [] @ Tick t # es" by simp
    then show ?thesis by blast
  next
    case False
    with Cons.prems have "t \<in> set (ticks es)"
      by (cases e) simp_all
    then obtain pre post where "es = pre @ Tick t # post"
      using Cons.IH by blast
    then have "e # es = (e # pre) @ Tick t # post" by simp
    then show ?thesis by blast
  qed
qed

lemma run_count_only_at_hit:
  assumes "fired_count c s < fired_count c (run es s)"
  shows "\<exists>t\<in>set (ticks es). boundary_hit t c"
proof (rule ccontr)
  assume "\<not> (\<exists>t\<in>set (ticks es). boundary_hit t c)"
  then have "fired_count c (run es s) = fired_count c s"
  proof (induction es arbitrary: s)
    case Nil
    show ?case by simp
  next
    case (Cons e es)
    have "fired_count c (step s e) = fired_count c s"
    proof (cases e)
      case (Tick t)
      with Cons.prems have "\<not> boundary_hit t c" by simp
      then show ?thesis
        unfolding Tick by (simp add: tick_no_hit_no_count)
    qed (simp_all add: fired_count_def)
    moreover have "\<not> (\<exists>t\<in>set (ticks es). boundary_hit t c)"
      using Cons.prems by (cases e) simp_all
    ultimately show ?case
      using Cons.IH [of "step s e"] by simp
  qed
  with assms show False by simp
qed

text \<open>
  Every recorded trigger is a call of \<open>triggerAlarm\<close>: a pass arms one timer for each
  class it records, and the class recorded last is the active alarm after the pass.
\<close>

lemma checkClass_log_is_trigger:
  "nextHandle (checkClass now s c) =
     nextHandle s + (length (firedLog (checkClass now s c)) - length (firedLog s)) \<and>
   (length (firedLog s) < length (firedLog (checkClass now s c)) \<longrightarrow>
      activeAlarm (checkClass now s c) =
        Some \<lparr>isActive = True, className = name (snd (last (firedLog (checkClass now s c)))), type = End\<rparr>)"
proof (cases "triggers now s c")
  case True
  then show ?thesis
    using checkClass_trigger [of now s c] by (simp add: checkClass_log)
next
  case False
  then show ?thesis
    by (simp add: checkClass_no_trigger)
qed

lemma forEach_log_is_trigger:
  "nextHandle (foldl (checkClass now) s cs) =
     nextHandle s + (length (firedLog (foldl (checkClass now) s cs)) - length (firedLog s)) \<and>
   (length (firedLog s) < length (firedLog (foldl (checkClass now) s cs)) \<longrightarrow>
      activeAlarm (foldl (checkClass now) s cs) =
        Some \<lparr>isActive = True,
              className = name (snd (last (firedLog (foldl (checkClass now) s cs)))), type = End\<rparr>)"
proof (induction cs arbitrary: s)
  case Nil
  show ?case by simp
next
  case (Cons a cs)
  let ?s1 = "checkClass now s a"
  let ?s' = "foldl (checkClass now) ?s1 cs"
  obtain n1 where n1: "firedLog ?s1 = firedLog s @ n1"
    by (cases "triggers now s a") (simp_all add: checkClass_log)
  obtain n2 where n2: "firedLog ?s' = firedLog ?s1 @ n2"
    using forEach_log by blast
  note one = checkClass_log_is_trigger [of now s a]
  note rest = Cons.IH [of ?s1]
  have h: "nextHandle ?s' = nextHandle s + (length (firedLog ?s') - length (firedLog s))"
    using one rest n1 n2 by simp
  have a: "activeAlarm ?s' =
      Some \<lparr>isActive = True, className = name (snd (last (firedLog ?s'))), type = End\<rparr>"
    if "length (firedLog s) < length (firedLog ?s')"
  proof (cases "n2 = []")
    case True
    then have "?s' = ?s1"
      using n2 forEach_log_unchanged [of now ?s1 cs] by simp
    with that one show ?thesis by simp
  next
    case False
    with rest n2 show ?thesis by simp
  qed
  from h a show ?case by simp
qed

lemma tick_log_is_trigger:
  "nextHandle (onmessage now s) =
     nextHandle s + (length (firedLog (onmessage now s)) - length (firedLog s)) \<and>
   (length (firedLog s) < length (firedLog (onmessage now s)) \<longrightarrow>
      activeAlarm (onmessage now s) =
        Some \<lparr>isActive = True,
              className = name (snd (last (firedLog (onmessage now s)))), type = End\<rparr>)"
proof (cases "truthy_str (handlerUser s) \<and> handlerAlarm s = None")
  case False
  then show ?thesis by (auto simp: onmessage_skipped)
next
  case True
  let ?r = "rollover now (s\<lparr>currentTime := now\<rparr>)"
  have eq: "onmessage now s = foldl (checkClass now) ?r (handlerClasses s)"
    using True by (simp add: onmessage_processed)
  have r: "nextHandle ?r = nextHandle s" "firedLog ?r = firedLog s"
    by (simp_all add: rollover_def)
  from forEach_log_is_trigger [of now ?r "handlerClasses s"]
  show ?thesis
    unfolding eq r .
qed

text \<open>
  C1, as the code has it. Take the events of one day in time order: ticks with their
  real dates, presses on the stop and test buttons, and the passing of time. Whatever
  the state at the start, the alarm of a class is triggered by ticks at most once, however
  many ticks fall in its end minute, and only by a tick at which the class is enabled,
  active on the tick's weekday and at its end time. If moreover some tick arrives at the
  class's end time on an active day, the handler was installed with a logged-in user,
  with no alarm active and with the class in its list under an id of its own, and the id
  is not in the fired-set at the start, then the alarm is triggered exactly once.
  Each trigger counted here is a call of \<open>triggerAlarm\<close>: the tick arms a timer for
  every class it records and leaves the last of them as the active alarm. Nothing makes
  up for an end minute in which no tick arrives.
\<close>

theorem one_alarm_per_class_per_day:
  assumes "sorted (map minuteOfDay (ticks es))" "\<forall>t\<in>set (ticks es). valid_date t"
  shows "fired_count c (run es s) \<le> fired_count c s + 1 \<and>
         (fired_count c s < fired_count c (run es s) \<longrightarrow> (\<exists>t\<in>set (ticks es). boundary_hit t c)) \<and>
         (truthy_str (handlerUser s) \<and> handlerAlarm s = None \<and> c \<in> set (handlerClasses s) \<and>
          (\<forall>c'\<in>set (handlerClasses s). class_id c' = class_id c \<longrightarrow> c' = c) \<and>
          class_id c \<notin> firedAlarms s \<and> (\<exists>t\<in>set (ticks es). boundary_hit t c) \<longrightarrow>
          fired_count c (run es s) = fired_count c s + 1) \<and>
         nextHandle (onmessage now s) =
           nextHandle s + (length (firedLog (onmessage now s)) - length (firedLog s)) \<and>
         (length (firedLog s) < length (firedLog (onmessage now s)) \<longrightarrow>
            activeAlarm (onmessage now s) =
              Some \<lparr>isActive = True,
                    className = name (snd (last (firedLog (onmessage now s)))), type = End\<rparr>)"
proof -
  have a: "fired_count c (run es s) \<le> fired_count c s + 1"
    using assms by (rule run_at_most_once)
  have b: "fired_count c s < fired_count c (run es s) \<longrightarrow> (\<exists>t\<in>set (ticks es). boundary_hit t c)"
    using run_count_only_at_hit [of c s es] by blast
  have c: "fired_count c (run es s) = fired_count c s + 1"
    if "truthy_str (handlerUser s)" "handlerAlarm s = None" "c \<in> set (handlerClasses s)"
       "\<forall>c'\<in>set (handlerClasses s). class_id c' = class_id c \<longrightarrow> c' = c"
       "class_id c \<notin> firedAlarms s" "\<exists>t\<in>set (ticks es). boundary_hit t c"
  proof -
    from that(6) obtain t where t: "t \<in> set (ticks es)" "boundary_hit t c"
      by blast
    then obtain pre post where e: "es = pre @ Tick t # post"
      using tick_in_run by blast
    have "fired_count c s < fired_count c (run (pre @ Tick t # post) s)"
      using that(3,4,5) t(2) that(1,2) by (rule run_fires_at_processed_hit)
    with a e show ?thesis by simp
  qed
  from a b c tick_log_is_trigger [of now s] show ?thesis by blast
qed

text \<open>
  C1 as stated fails. With the daily class, after the alarm of Sunday 08:30 and a day
  without ticks, the ticks of Monday 08:30 find the last-seen minute still at 30 and the
  id still in the fired-set. The class is enabled and active on Monday, ticks fall in
  its end minute, and Monday gets no alarm.
\<close>

theorem one_alarm_per_class_per_day_counterexample:
  "sorted (map minuteOfDay (ticks monday_ticks)) \<and>
   at_time 1 8 30 \<in> set (ticks monday_ticks) \<and>
   boundary_hit (at_time 1 8 30) daily_lesson \<and>
   activeAlarm (run sunday_then_sleep (init_state (str ''u'') [daily_lesson] (at_time 0 8 29))) = None \<and>
   fired_count daily_lesson
     (run sunday_then_sleep (init_state (str ''u'') [daily_lesson] (at_time 0 8 29))) = 1 \<and>
   fired_count daily_lesson
     (run monday_ticks
        (run sunday_then_sleep (init_state (str ''u'') [daily_lesson] (at_time 0 8 29)))) = 1 \<and>
   nextHandle (run sunday_then_sleep (init_state (str ''u'') [daily_lesson] (at_time 0 8 29))) = 2 \<and>
   nextHandle (run monday_ticks
        (run sunday_then_sleep (init_state (str ''u'') [daily_lesson] (at_time 0 8 29)))) = 2 \<and>
   activeAlarm (run monday_ticks
        (run sunday_then_sleep (init_state (str ''u'') [daily_lesson] (at_time 0 8 29)))) = None"
proof -
  have "sorted (map minuteOfDay (ticks monday_ticks))"
    by (simp add: monday_ticks_def minuteOfDay_def at_time_def)
  moreover have "at_time 1 8 30 \<in> set (ticks monday_ticks)"
    by (simp add: monday_ticks_def)
  moreover have "boundary_hit (at_time 1 8 30) daily_lesson"
    by (simp add: boundary_hit_def daily_lesson_def lesson_def at_time_def includes_str_def
        dayName_def DAYS_OF_WEEK_def timeStr_digits str_def)
  moreover have "activeAlarm (run sunday_then_sleep (init_state (str ''u'') [daily_lesson] (at_time 0 8 29))) = None"
    by (simp add: sunday_then_sleep_def daily_lesson_def eval_defs)
  moreover have "firedLog (run sunday_then_sleep (init_state (str ''u'') [daily_lesson] (at_time 0 8 29))) =
      [(at_time 0 8 30, daily_lesson)]"
    by (simp add: sunday_then_sleep_def daily_lesson_def eval_defs)
  moreover have "firedLog (run monday_ticks
        (run sunday_then_sleep (init_state (str ''u'') [daily_lesson] (at_time 0 8 29)))) =
      [(at_time 0 8 30, daily_lesson)]"
    by (simp add: monday_ticks_def sunday_then_sleep_def daily_lesson_def eval_defs)
  moreover have "nextHandle (run sunday_then_sleep (init_state (str ''u'') [daily_lesson] (at_time 0 8 29))) = 2"
    by (simp add: sunday_then_sleep_def daily_lesson_def eval_defs)
  moreover have "nextHandle (run monday_ticks
        (run sunday_then_sleep (init_state (str ''u'') [daily_lesson] (at_time 0 8 29)))) = 2"
    by (simp add: monday_ticks_def sunday_then_sleep_def daily_lesson_def eval_defs)
  moreover have "activeAlarm (run monday_ticks
        (run sunday_then_sleep (init_state (str ''u'') [daily_lesson] (at_time 0 8 29)))) = None"
    by (simp add: monday_ticks_def sunday_then_sleep_def daily_lesson_def eval_defs)
  ultimately show ?thesis
    by (simp add: fired_count_def)
qed

theorem one_alarm_per_class_per_day_witness:
  "sorted (map minuteOfDay (ticks repeated_ticks)) \<and>
   fired_count (lesson ''1'' ''08:00'' ''08:30'')
     (init_state (str ''u'') [lesson ''1'' ''08:00'' ''08:30''] (at_time 0 8 28)) = 0 \<and>
   fired_count (lesson ''1'' ''08:00'' ''08:30'')
     (run repeated_ticks (init_state (str ''u'') [lesson ''1'' ''08:00'' ''08:30''] (at_time 0 8 28))) = 1"
proof -
  let ?c = "lesson ''1'' ''08:00'' ''08:30''"
  let ?s = "init_state (str ''u'') [?c] (at_time 0 8 28)"
  have srt: "sorted (map minuteOfDay (ticks repeated_ticks))"
    by (simp add: repeated_ticks_def minuteOfDay_def at_time_def)
  have val: "\<forall>t\<in>set (ticks repeated_ticks). valid_date t"
    by (simp add: repeated_ticks_def valid_date_def at_time_def)
  have z: "fired_count ?c ?s = 0"
    by (simp add: fired_count_def init_state_def)
  have pre: "truthy_str (handlerUser ?s)" "handlerAlarm ?s = None" "?c \<in> set (handlerClasses ?s)"
      "\<forall>c'\<in>set (handlerClasses ?s). class_id c' = class_id ?c \<longrightarrow> c' = ?c"
      "class_id ?c \<notin> firedAlarms ?s"
    by (simp_all add: init_state_def truthy_str_def str_def)
  have hit: "boundary_hit (at_time 0 8 30) ?c"
    by (simp add: boundary_hit_def lesson_def at_time_def includes_str_def dayName_def
        DAYS_OF_WEEK_def timeStr_digits str_def)
  have "at_time 0 8 30 \<in> set (ticks repeated_ticks)"
    by (simp add: repeated_ticks_def)
  with hit have ex: "\<exists>t\<in>set (ticks repeated_ticks). boundary_hit t ?c"
    by blast
  have "fired_count ?c (run repeated_ticks ?s) = fired_count ?c ?s + 1"
    using one_alarm_per_class_per_day [OF srt val, of ?c ?s] pre ex by blast
  with srt z show ?thesis by simp
qed

subsection \<open>The auto-stop timer\<close>

lemma timer_inv_cong:
  assumes "nextHandle s' = nextHandle s" "timers s' = timers s" "autoStopTimer s' = autoStopTimer s"
  shows "timer_inv s' = timer_inv s"
  unfolding timer_inv_def assms by (rule refl)

lemma triggerAlarm_timers:
  assumes "timer_inv s"
  shows "timers (triggerAlarm cn ty s) = [(nextHandle s, now_ms s + 20000)] \<and>
         autoStopTimer (triggerAlarm cn ty s) = Some (nextHandle s) \<and>
         nextHandle (triggerAlarm cn ty s) = Suc (nextHandle s)"
  using assms
  by (auto simp: timer_inv_def triggerAlarm_def Let_def setTimeout_def clearTimeout_def
      truthy_handle_def split: list.splits option.splits)

lemma stopAlarm_timers:
  assumes "timer_inv s"
  shows "timers (stopAlarm s) = [] \<and> nextHandle (stopAlarm s) = nextHandle s"
  using assms
  by (auto simp: timer_inv_def stopAlarm_def Let_def clearTimeout_def truthy_handle_def
      split: list.splits option.splits)

lemma triggerAlarm_inv: "timer_inv s \<Longrightarrow> timer_inv (triggerAlarm cn ty s)"
  using triggerAlarm_timers [of s cn ty] by (simp add: timer_inv_def)

lemma stopAlarm_inv: "timer_inv s \<Longrightarrow> timer_inv (stopAlarm s)"
  using stopAlarm_timers [of s] by (simp add: timer_inv_def)

lemma toggleTestSound_inv: "timer_inv s \<Longrightarrow> timer_inv (toggleTestSound s)"
proof -
  assume a: "timer_inv s"
  then have "timer_inv (s\<lparr>isTestingSound := True\<rparr>)"
    using timer_inv_cong [of "s\<lparr>isTestingSound := True\<rparr>" s] by simp
  with a show ?thesis
    by (simp add: toggleTestSound_def stopAlarm_inv triggerAlarm_inv)
qed

lemma checkClass_inv: "timer_inv s \<Longrightarrow> timer_inv (checkClass now s c)"
proof -
  assume a: "timer_inv s"
  let ?s1 = "s\<lparr>firedAlarms := insert (class_id c) (firedAlarms s), firedLog := firedLog s @ [(now, c)]\<rparr>"
  let ?s2 = "triggerAlarm (name c) End ?s1"
  from a have "timer_inv ?s1"
    using timer_inv_cong [of ?s1 s] by simp
  then have 2: "timer_inv ?s2"
    by (rule triggerAlarm_inv)
  then have "timer_inv (?s2\<lparr>notifications := notifications ?s2 @ [notificationTitle (name c)]\<rparr>)"
    using timer_inv_cong [of "?s2\<lparr>notifications := notifications ?s2 @ [notificationTitle (name c)]\<rparr>" ?s2]
    by simp
  with a 2 show ?thesis
    by (simp add: checkClass_def Let_def)
qed

lemma forEach_inv: "timer_inv s \<Longrightarrow> timer_inv (foldl (checkClass now) s cs)"
  by (induction cs arbitrary: s) (simp_all add: checkClass_inv)

lemma onmessage_inv: "timer_inv s \<Longrightarrow> timer_inv (onmessage now s)"
proof -
  assume a: "timer_inv s"
  then have "timer_inv (s\<lparr>currentTime := now\<rparr>)"
    using timer_inv_cong [of "s\<lparr>currentTime := now\<rparr>" s] by simp
  then have "timer_inv (rollover now (s\<lparr>currentTime := now\<rparr>))"
    using timer_inv_cong [of "rollover now (s\<lparr>currentTime := now\<rparr>)" "s\<lparr>currentTime := now\<rparr>"]
    by (simp add: rollover_def)
  then have "timer_inv (foldl (checkClass now) (rollover now (s\<lparr>currentTime := now\<rparr>)) (handlerClasses s))"
    by (rule forEach_inv)
  with \<open>timer_inv (s\<lparr>currentTime := now\<rparr>)\<close> show ?thesis
    by (simp add: onmessage_def checkAlarms_def)
qed

lemma stopAlarm_fold_inv: "timer_inv s \<Longrightarrow> timer_inv (foldl (\<lambda>s' p. stopAlarm s') s ps)"
  by (induction ps arbitrary: s) (simp_all add: stopAlarm_inv)

lemma elapse_inv: "timer_inv s \<Longrightarrow> timer_inv (elapse d s)"
proof -
  assume a: "timer_inv s"
  let ?t = "now_ms s + d"
  have "timer_inv (s\<lparr>now_ms := ?t, timers := filter (\<lambda>p. \<not> snd p \<le> ?t) (timers s)\<rparr>)"
    using a by (auto simp: timer_inv_def split: list.splits)
  then show ?thesis
    unfolding elapse_def Let_def by (rule stopAlarm_fold_inv)
qed

lemma step_inv: "timer_inv s \<Longrightarrow> timer_inv (step s e)"
  by (cases e) (simp_all add: onmessage_inv stopAlarm_inv toggleTestSound_inv elapse_inv)

lemma run_inv: "timer_inv s \<Longrightarrow> timer_inv (run es s)"
  by (induction es arbitrary: s) (simp_all add: step_inv)

lemma timer_inv_at_most_one: "timer_inv s \<Longrightarrow> length (timers s) \<le> 1"
  by (auto simp: timer_inv_def split: list.splits)

lemma elapse_before_deadline:
  assumes "timers s = [(h, T)]" "now_ms s + d < T"
  shows "elapse d s = s\<lparr>now_ms := now_ms s + d\<rparr>"
  using assms by (simp add: elapse_def Let_def)

lemma elapse_at_deadline:
  assumes "timers s = [(h, T)]" "T \<le> now_ms s + d"
  shows "activeAlarm (elapse d s) = None \<and> timers (elapse d s) = []"
  using assms by (simp add: elapse_def Let_def stopAlarm_def clearTimeout_def)

lemma run_log: "\<exists>new. firedLog (run es s) = firedLog s @ new"
proof (induction es arbitrary: s)
  case Nil
  show ?case by simp
next
  case (Cons e es)
  obtain n1 where "firedLog (step s e) = firedLog s @ n1"
    using step_log by blast
  moreover obtain n2 where "firedLog (run es (step s e)) = firedLog (step s e) @ n2"
    using Cons.IH by blast
  ultimately show ?case by simp
qed

lemma tick_log_unchanged:
  assumes "firedLog (onmessage now s) = firedLog s"
  shows "activeAlarm (onmessage now s) = activeAlarm s \<and> timers (onmessage now s) = timers s \<and>
         now_ms (onmessage now s) = now_ms s"
proof (cases "truthy_str (handlerUser s) \<and> handlerAlarm s = None")
  case False
  then show ?thesis by (auto simp: onmessage_skipped)
next
  case True
  let ?r = "rollover now (s\<lparr>currentTime := now\<rparr>)"
  have eq: "onmessage now s = foldl (checkClass now) ?r (handlerClasses s)"
    using True by (simp add: onmessage_processed)
  have "firedLog (foldl (checkClass now) ?r (handlerClasses s)) = firedLog ?r"
    using assms unfolding eq by simp
  then have "foldl (checkClass now) ?r (handlerClasses s) = ?r"
    by (rule forEach_log_unchanged)
  then show ?thesis
    unfolding eq by (simp add: rollover_def)
qed

text \<open>
  While no button is pressed, no tick triggers an alarm and the deadline has not come,
  the alarm and its timer stay as they are.
\<close>

lemma quiet_run_keeps_ringing:
  assumes "activeAlarm s = Some a" "timers s = [(h, T)]" "no_press es"
    and "firedLog (run es s) = firedLog s" "now_ms s + elapsed es < T"
  shows "activeAlarm (run es s) = Some a \<and> timers (run es s) = [(h, T)] \<and>
         now_ms (run es s) = now_ms s + elapsed es"
  using assms
proof (induction es arbitrary: s)
  case Nil
  then show ?case by simp
next
  case (Cons e es)
  obtain n1 where n1: "firedLog (step s e) = firedLog s @ n1"
    using step_log by blast
  obtain n2 where n2: "firedLog (run es (step s e)) = firedLog (step s e) @ n2"
    using run_log by blast
  from n1 n2 Cons.prems(4) have l1: "firedLog (step s e) = firedLog s"
    and l2: "firedLog (run es (step s e)) = firedLog (step s e)"
    by simp_all
  show ?case
  proof (cases e)
    case (Tick now)
    have "activeAlarm (step s e) = Some a \<and> timers (step s e) = [(h, T)] \<and>
        now_ms (step s e) = now_ms s"
      using l1 Cons.prems(1,2) tick_log_unchanged [of now s] unfolding Tick by simp
    with Cons.prems Tick l2 Cons.IH [of "step s e"] show ?thesis
      by simp
  next
    case (Elapse d)
    with Cons.prems have "now_ms s + d < T" by simp
    then have st: "step s e = s\<lparr>now_ms := now_ms s + d\<rparr>"
      using Cons.prems(2) Elapse by (simp add: elapse_before_deadline)
    with Cons.prems Elapse l2 Cons.IH [of "s\<lparr>now_ms := now_ms s + d\<rparr>"] show ?thesis
      by (simp add: add.assoc)
  next
    case Stop
    with Cons.prems show ?thesis by simp
  next
    case TestButton
    with Cons.prems show ?thesis by simp
  qed
qed

text \<open>
  C8, as the code has it. In a state whose timer queue is as the handlers keep it,
  \<open>triggerAlarm\<close> leaves exactly one pending timer, due 20000 ms from now, any earlier
  one being cleared first. If then no button is pressed and no tick triggers an alarm,
  the alarm stays active as triggered while less than 20000 ms have passed, and at the
  moment the 20000 ms have passed it is stopped and no timer is left. \<open>stopAlarm\<close>
  leaves no pending timer. Every event keeps the queue in this shape, so at most one
  auto-stop timer is ever pending. Timers are taken as punctual.
\<close>

theorem auto_stop_after_20_seconds:
  assumes "timer_inv s"
  shows "timers (triggerAlarm cn ty s) = [(nextHandle s, now_ms s + 20000)] \<and>
         (no_press es \<and> firedLog (run es (triggerAlarm cn ty s)) = firedLog s \<and>
          elapsed es < 20000 \<longrightarrow>
            activeAlarm (run es (triggerAlarm cn ty s)) =
              Some \<lparr>isActive = True, className = cn, type = ty\<rparr>) \<and>
         (no_press es \<and> firedLog (run es (triggerAlarm cn ty s)) = firedLog s \<and>
          elapsed es < 20000 \<and> 20000 \<le> elapsed es + d \<longrightarrow>
            activeAlarm (run (es @ [Elapse d]) (triggerAlarm cn ty s)) = None \<and>
            timers (run (es @ [Elapse d]) (triggerAlarm cn ty s)) = []) \<and>
         timers (stopAlarm s) = [] \<and>
         timer_inv (run es s) \<and> length (timers (run es s)) \<le> 1"
proof -
  let ?s1 = "triggerAlarm cn ty s"
  let ?a = "\<lparr>isActive = True, className = cn, type = ty\<rparr>"
  have t: "timers ?s1 = [(nextHandle s, now_ms s + 20000)]"
    using assms triggerAlarm_timers by blast
  have quiet: "activeAlarm (run es ?s1) = Some ?a \<and> timers (run es ?s1) = [(nextHandle s, now_ms s + 20000)] \<and>
         now_ms (run es ?s1) = now_ms ?s1 + elapsed es"
    if "no_press es" "firedLog (run es ?s1) = firedLog s" "elapsed es < 20000"
    using that t by (intro quiet_run_keeps_ringing) simp_all
  have stop: "activeAlarm (run (es @ [Elapse d]) ?s1) = None \<and> timers (run (es @ [Elapse d]) ?s1) = []"
    if "no_press es" "firedLog (run es ?s1) = firedLog s" "elapsed es < 20000" "20000 \<le> elapsed es + d"
  proof -
    from quiet [OF that(1,2,3)]
    have "timers (run es ?s1) = [(nextHandle s, now_ms s + 20000)]"
      and "now_ms s + 20000 \<le> now_ms (run es ?s1) + d"
      using that(4) by simp_all
    then show ?thesis
      by (simp add: elapse_at_deadline)
  qed
  have "timers (stopAlarm s) = []"
    using assms stopAlarm_timers by blast
  moreover have "timer_inv (run es s)"
    using assms by (rule run_inv)
  moreover from this have "length (timers (run es s)) \<le> 1"
    by (rule timer_inv_at_most_one)
  ultimately show ?thesis
    using t quiet stop by blast
qed

theorem auto_stop_after_20_seconds_witness:
  "timer_inv (init_state (str ''u'') [lesson ''1'' ''08:00'' ''08:30''] (at_time 0 8 28)) \<and>
   timers (triggerAlarm (str ''Maths'') End
     (init_state (str ''u'') [lesson ''1'' ''08:00'' ''08:30''] (at_time 0 8 28))) = [(1, 20000)] \<and>
   activeAlarm (run [Tick (at_time 0 8 29), Elapse 19999]
     (triggerAlarm (str ''Maths'') End
        (init_state (str ''u'') [lesson ''1'' ''08:00'' ''08:30''] (at_time 0 8 28)))) =
     Some \<lparr>isActive = True, className = str ''Maths'', type = End\<rparr> \<and>
   activeAlarm (run ([Tick (at_time 0 8 29), Elapse 19999] @ [Elapse 1])
     (triggerAlarm (str ''Maths'') End
        (init_state (str ''u'') [lesson ''1'' ''08:00'' ''08:30''] (at_time 0 8 28)))) = None"
proof -
  let ?s = "init_state (str ''u'') [lesson ''1'' ''08:00'' ''08:30''] (at_time 0 8 28)"
  have i: "timer_inv ?s"
    by (simp add: timer_inv_def init_state_def)
  have q: "no_press [Tick (at_time 0 8 29), Elapse 19999]"
      "elapsed [Tick (at_time 0 8 29), Elapse 19999] = 19999"
    by simp_all
  have l: "firedLog (run [Tick (at_time 0 8 29), Elapse 19999] (triggerAlarm (str ''Maths'') End ?s)) =
      firedLog ?s"
    by (simp add: eval_defs)
  have n: "nextHandle ?s = 1" "now_ms ?s = 0"
    by (simp_all add: init_state_def)
  note w = auto_stop_after_20_seconds [OF i, of "str ''Maths''" End "[Tick (at_time 0 8 29), Elapse 19999]" 1]
  have "timers (triggerAlarm (str ''Maths'') End ?s) = [(1, 20000)]"
    using w [THEN conjunct1] n by simp
  moreover have "activeAlarm (run [Tick (at_time 0 8 29), Elapse 19999] (triggerAlarm (str ''Maths'') End ?s)) =
      Some \<lparr>isActive = True, className = str ''Maths'', type = End\<rparr>"
    using w [THEN conjunct2, THEN conjunct1] q l by simp
  moreover have "activeAlarm (run ([Tick (at_time 0 8 29), Elapse 19999] @ [Elapse 1])
      (triggerAlarm (str ''Maths'') End ?s)) = None"
    using w [THEN conjunct2, THEN conjunct2, THEN conjunct1] q l by simp
  ultimately show ?thesis
    using i by (intro conjI)
qed

text \<open>
  C8 as stated fails: a further trigger before the deadline re-arms the timer, and the
  alarm is not idle when the first 20000 ms have passed, although \<open>stop()\<close> was never
  called. The tick of 08:29 rings the alarm of the class ending then, with a timer due at
  20000 ms. Eleven seconds later either the test button is pressed, or a tick of 08:30
  hits the class ending at 08:30; both call \<open>triggerAlarm\<close>, which clears the timer and
  arms a new one due at 31000 ms. At 20000 ms the alarm is still active.
\<close>

theorem auto_stop_counterexample:
  "timers (run [Tick (at_time 0 8 29)]
      (init_state (str ''u'') two_lessons (at_time 0 8 28))) = [(1, 20000)] \<and>
   now_ms (run [Tick (at_time 0 8 29), Elapse 11000, TestButton, Elapse 9000]
      (init_state (str ''u'') two_lessons (at_time 0 8 28))) = 20000 \<and>
   activeAlarm (run [Tick (at_time 0 8 29), Elapse 11000, TestButton, Elapse 9000]
      (init_state (str ''u'') two_lessons (at_time 0 8 28))) =
     Some \<lparr>isActive = True, className = testLabel, type = Start\<rparr> \<and>
   timers (run [Tick (at_time 0 8 29), Elapse 11000, TestButton, Elapse 9000]
      (init_state (str ''u'') two_lessons (at_time 0 8 28))) = [(2, 31000)] \<and>
   now_ms (run [Tick (at_time 0 8 29), Elapse 11000, Tick (at_time 0 8 30), Elapse 9000]
      (init_state (str ''u'') two_lessons (at_time 0 8 28))) = 20000 \<and>
   activeAlarm (run [Tick (at_time 0 8 29), Elapse 11000, Tick (at_time 0 8 30), Elapse 9000]
      (init_state (str ''u'') two_lessons (at_time 0 8 28))) =
     Some \<lparr>isActive = True, className = str ''Maths'', type = End\<rparr> \<and>
   timers (run [Tick (at_time 0 8 29), Elapse 11000, Tick (at_time 0 8 30), Elapse 9000]
      (init_state (str ''u'') two_lessons (at_time 0 8 28))) = [(2, 31000)]"
  by (simp add: two_lessons_def eval_defs)

subsection \<open>Preemption\<close>

text \<open>
  C4, as the code has it. The test button is not guarded by the alarm state. Pressed
  while an alarm is active, it stops the alarm and leaves no timer if a test is running;
  otherwise it replaces the active alarm, its class name and kind, by the test alarm
  and arms a new auto-stop timer in place of the pending one.
\<close>

theorem test_button_preempts:
  assumes "activeAlarm s = Some a" "timer_inv s"
  shows "(isTestingSound s \<longrightarrow>
            activeAlarm (toggleTestSound s) = None \<and> timers (toggleTestSound s) = [] \<and>
            \<not> isTestingSound (toggleTestSound s)) \<and>
         (\<not> isTestingSound s \<longrightarrow>
            activeAlarm (toggleTestSound s) =
              Some \<lparr>isActive = True, className = testLabel, type = Start\<rparr> \<and>
            timers (toggleTestSound s) = [(nextHandle s, now_ms s + 20000)] \<and>
            isTestingSound (toggleTestSound s))"
proof -
  have "timer_inv (s\<lparr>isTestingSound := True\<rparr>)"
    using assms(2) timer_inv_cong [of "s\<lparr>isTestingSound := True\<rparr>" s] by simp
  then have t: "timers (triggerAlarm testLabel Start (s\<lparr>isTestingSound := True\<rparr>)) =
      [(nextHandle s, now_ms s + 20000)]"
    using triggerAlarm_timers [of "s\<lparr>isTestingSound := True\<rparr>" testLabel Start] by simp
  have i: "isTestingSound (triggerAlarm testLabel Start (s\<lparr>isTestingSound := True\<rparr>))"
    by (simp add: triggerAlarm_def Let_def setTimeout_def clearTimeout_def)
  have n: "\<not> isTestingSound (stopAlarm s)"
    by (simp add: stopAlarm_def Let_def clearTimeout_def)
  from t i n show ?thesis
    using assms(2) stopAlarm_timers [of s] by (simp add: toggleTestSound_def)
qed

theorem test_button_preempts_witness:
  "activeAlarm (run [Tick (at_time 0 8 30)]
      (init_state (str ''u'') [lesson ''1'' ''08:00'' ''08:30''] (at_time 0 8 28))) =
     Some \<lparr>isActive = True, className = str ''Maths'', type = End\<rparr> \<and>
   activeAlarm (toggleTestSound (run [Tick (at_time 0 8 30)]
      (init_state (str ''u'') [lesson ''1'' ''08:00'' ''08:30''] (at_time 0 8 28)))) =
     Some \<lparr>isActive = True, className = testLabel, type = Start\<rparr> \<and>
   timers (toggleTestSound (run [Tick (at_time 0 8 30)]
      (init_state (str ''u'') [lesson ''1'' ''08:00'' ''08:30''] (at_time 0 8 28)))) = [(2, 20000)]"
proof -
  let ?s = "run [Tick (at_time 0 8 30)] (init_state (str ''u'') [lesson ''1'' ''08:00'' ''08:30''] (at_time 0 8 28))"
  have a: "activeAlarm ?s = Some \<lparr>isActive = True, className = str ''Maths'', type = End\<rparr>"
    by (simp add: eval_defs)
  have i: "timer_inv ?s"
    by (rule run_inv) (simp add: timer_inv_def init_state_def)
  have f: "\<not> isTestingSound ?s" "nextHandle ?s = 2" "now_ms ?s = 0"
    by (simp_all add: eval_defs)
  from test_button_preempts [OF a i, THEN conjunct2] f a
  show ?thesis by simp
qed

text \<open>
  C4 as stated fails for the test button. The tick of 08:30 rings the alarm of the class
  that ends then; a press on the test button while it rings replaces the active alarm,
  of kind end, by the test alarm, of kind start.
\<close>

theorem no_preemption_counterexample:
  "activeAlarm (run [Tick (at_time 0 8 30)]
      (init_state (str ''u'') [lesson ''1'' ''08:00'' ''08:30''] (at_time 0 8 28))) =
     Some \<lparr>isActive = True, className = str ''Maths'', type = End\<rparr> \<and>
   activeAlarm (run [Tick (at_time 0 8 30), TestButton]
      (init_state (str ''u'') [lesson ''1'' ''08:00'' ''08:30''] (at_time 0 8 28))) =
     Some \<lparr>isActive = True, className = testLabel, type = Start\<rparr>"
  by (simp add: eval_defs)

subsection \<open>Loading\<close>

text \<open>
  C9, as the code has it. Nothing validates the saved records. When the saved text
  parses, the parsed list becomes the class list as it is, every record of it, well
  formed or not; when parsing throws, the error is logged and the state is left as it
  was, so no record of the saved text is loaded.
\<close>

theorem saved_classes_loaded_unvalidated:
  assumes "currentUser s = Some u" "u \<noteq> []"
    and "getItem (userKey u @ str ''classes'') = Some txt" "txt \<noteq> []"
  shows "(JSON_parse txt = Some cs \<longrightarrow> loadClasses JSON_parse getItem s = s\<lparr>classes := cs\<rparr>) \<and>
         (JSON_parse txt = None \<longrightarrow> loadClasses JSON_parse getItem s = s)"
  using assms by (simp add: loadClasses_def truthy_str_def Let_def)

theorem saved_classes_loaded_unvalidated_witness:
  "classes (loadClasses demo_parse demo_getItem (init_state (str ''u'') [] (at_time 0 8 28))) =
     [lesson ''1'' ''08:00'' ''08:30'', lesson ''2'' ''09:00'' ''08:00''] \<and>
   loadClasses failing_parse demo_getItem
     (init_state (str ''u'') [lesson ''1'' ''08:00'' ''08:30''] (at_time 0 8 28)) =
     init_state (str ''u'') [lesson ''1'' ''08:00'' ''08:30''] (at_time 0 8 28)"
proof -
  have k: "userKey (str ''u'') @ str ''classes'' = str ''user_u_classes''"
    by (simp add: userKey_def str_def)
  have g: "demo_getItem (userKey (str ''u'') @ str ''classes'') = Some stored_text"
    unfolding k by (simp add: demo_getItem_def)
  have u: "currentUser (init_state (str ''u'') cs (at_time 0 8 28)) = Some (str ''u'')" for cs
    by (simp add: init_state_def)
  have ne: "str ''u'' \<noteq> []" "stored_text \<noteq> []"
    by (simp_all add: str_def stored_text_def)
  have p: "demo_parse stored_text = Some [lesson ''1'' ''08:00'' ''08:30'', lesson ''2'' ''09:00'' ''08:00'']"
      "failing_parse stored_text = None"
    by (simp_all add: demo_parse_def failing_parse_def)
  let ?two = "[lesson ''1'' ''08:00'' ''08:30'', lesson ''2'' ''09:00'' ''08:00'']"
  let ?one = "[lesson ''1'' ''08:00'' ''08:30'']"
  have "loadClasses demo_parse demo_getItem (init_state (str ''u'') [] (at_time 0 8 28)) =
      (init_state (str ''u'') [] (at_time 0 8 28))\<lparr>classes := ?two\<rparr>"
    using saved_classes_loaded_unvalidated [of "init_state (str ''u'') [] (at_time 0 8 28)" "str ''u''"
        demo_getItem stored_text demo_parse ?two] u g ne p
    by blast
  moreover have "loadClasses failing_parse demo_getItem (init_state (str ''u'') ?one (at_time 0 8 28)) =
      init_state (str ''u'') ?one (at_time 0 8 28)"
    using saved_classes_loaded_unvalidated [of "init_state (str ''u'') ?one (at_time 0 8 28)" "str ''u''"
        demo_getItem stored_text failing_parse ?two] u g ne p
    by blast
  ultimately show ?thesis by simp
qed

text \<open>
  C9 as stated fails. Of the two saved records the second has its end before its start;
  it is loaded with the first, not skipped. And when \<open>JSON.parse\<close> throws, nothing of
  the saved text is loaded: the class list stays as it was, here empty.
\<close>

theorem saved_classes_counterexample:
  "well_formed_record (lesson ''1'' ''08:00'' ''08:30'') \<and>
   \<not> well_formed_record (lesson ''2'' ''09:00'' ''08:00'') \<and>
   classes (loadClasses demo_parse demo_getItem (init_state (str ''u'') [] (at_time 0 8 28))) =
     [lesson ''1'' ''08:00'' ''08:30'', lesson ''2'' ''09:00'' ''08:00''] \<and>
   classes (loadClasses demo_parse demo_getItem (init_state (str ''u'') [] (at_time 0 8 28))) \<noteq>
     filter well_formed_record [lesson ''1'' ''08:00'' ''08:30'', lesson ''2'' ''09:00'' ''08:00''] \<and>
   classes (loadClasses failing_parse demo_getItem (init_state (str ''u'') [] (at_time 0 8 28))) = []"
proof -
  have w1: "well_formed_record (lesson ''1'' ''08:00'' ''08:30'')"
    by (simp add: well_formed_record_def is_hhmm_def lesson_def str_def)
  have w2: "\<not> well_formed_record (lesson ''2'' ''09:00'' ''08:00'')"
    by (simp add: well_formed_record_def is_hhmm_def lesson_def str_def)
  have k: "userKey (str ''u'') @ str ''classes'' = str ''user_u_classes''"
    by (simp add: userKey_def str_def)
  have l: "classes (loadClasses demo_parse demo_getItem (init_state (str ''u'') [] (at_time 0 8 28))) =
     [lesson ''1'' ''08:00'' ''08:30'', lesson ''2'' ''09:00'' ''08:00'']"
    by (simp add: loadClasses_def init_state_def truthy_str_def k demo_getItem_def demo_parse_def
        Let_def) (simp add: str_def stored_text_def)
  have f: "classes (loadClasses failing_parse demo_getItem (init_state (str ''u'') [] (at_time 0 8 28))) = []"
    by (simp add: loadClasses_def init_state_def truthy_str_def k demo_getItem_def failing_parse_def
        Let_def)
  from w1 w2 l f show ?thesis by simp
qed

end
